theory Spec2Isabelle
  imports Main "HOL-Library.Multiset"
begin

text \<open>
  A model of the rules engine of the backgammon component \<open>BackgammonGame\<close> in
  \<open>src/index.js\<close>: the board, the legality tests, the move generator, and the handlers
  that roll, move, undo and end a turn. Numbers are integers, arrays are lists, the state
  variables of the component are the fields of a record, and every handler is a function
  from the state in which it is called to the state it sets. Definitions carry the names
  of the functions and variables they stand for.
\<close>

section \<open>Colours, counters and the board\<close>

text \<open>
  The program names colours by the strings \<open>'white'\<close> and \<open>'black'\<close>; the helper
  \<open>getOpponentColor\<close> can also produce the string \<open>'opponent'\<close>. The three string values
  are the three constructors below.
\<close>

datatype color = White | Black | Opponent

text \<open>
  \<open>bar\<close> and \<open>home\<close> are objects with the two numeric properties \<open>white\<close> and
  \<open>black\<close>. Reading them under the key \<open>'opponent'\<close> gives \<open>undefined\<close> (here
  \<open>None\<close>); incrementing under that key adds a property that nothing reads and leaves
  the two counters alone.
\<close>

record counts =
  white :: int
  black :: int

fun cnt :: "counts \<Rightarrow> color \<Rightarrow> int option" where
  "cnt r White = Some (white r)"
| "cnt r Black = Some (black r)"
| "cnt r Opponent = None"

fun cntAdd :: "counts \<Rightarrow> color \<Rightarrow> int \<Rightarrow> counts" where
  "cntAdd r White k = r\<lparr>white := white r + k\<rparr>"
| "cntAdd r Black k = r\<lparr>black := black r + k\<rparr>"
| "cntAdd r Opponent k = r"

text \<open>\<open>x > 0\<close> and \<open>x === 0\<close> on a number or \<open>undefined\<close>.\<close>

fun positive :: "int option \<Rightarrow> bool" where
  "positive None = False"
| "positive (Some n) = (0 < n)"

fun isZero :: "int option \<Rightarrow> bool" where
  "isZero None = False"
| "isZero (Some n) = (n = 0)"

text \<open>
  A point is its array \<open>checkers\<close>: \<open>checkers[0]\<close> is the head of the list,
  \<open>push\<close> appends at the end and \<open>pop\<close> removes the last element. The board has the
  array \<open>points\<close> (index \<open>i\<close> is game point \<open>i + 1\<close>), \<open>bar\<close> and \<open>home\<close>.
\<close>

record board =
  points :: "color list list"
  bar :: counts
  home :: counts

text \<open>\<open>xs[i]\<close> for a number \<open>i\<close>: \<open>None\<close> stands for \<open>undefined\<close>.\<close>

definition elemAt :: "'a list \<Rightarrow> int \<Rightarrow> 'a option" where
  "elemAt xs i = (if 0 \<le> i \<and> i < int (length xs) then Some (xs ! nat i) else None)"

text \<open>\<open>xs.indexOf(x)\<close>: the first position of \<open>x\<close>, or \<open>-1\<close>.\<close>

fun indexOf :: "'a list \<Rightarrow> 'a \<Rightarrow> int" where
  "indexOf [] x = -1"
| "indexOf (y # ys) x =
     (if x = y then 0 else (let r = indexOf ys x in if r < 0 then -1 else r + 1))"

text \<open>
  The checkers of the point at array index \<open>i\<close>, for the reads the program makes without a
  guard. Every board the program builds has 24 points and these reads use indices
  \<open>0 .. 23\<close>; the theorems below assume 24 points wherever such a read is involved.
\<close>

definition checkersAt :: "board \<Rightarrow> int \<Rightarrow> color list" where
  "checkersAt b i = (case elemAt (points b) i of Some cs \<Rightarrow> cs | None \<Rightarrow> [])"

text \<open>
  The board with the checkers of the point at index \<open>i\<close> replaced; it is used for an index
  that has just been read.
\<close>

definition setCheckers :: "board \<Rightarrow> int \<Rightarrow> color list \<Rightarrow> board" where
  "setCheckers b i cs = (if 0 \<le> i then b\<lparr>points := (points b)[nat i := cs]\<rparr> else b)"

definition whitePath :: "int list" where
  "whitePath = [12, 11, 10, 9, 8, 7, 6, 5, 4, 3, 2, 1, 24, 23, 22, 21, 20, 19, 18, 17, 16, 15, 14, 13]"

definition blackPath :: "int list" where
  "blackPath = [13, 14, 15, 16, 17, 18, 19, 20, 21, 22, 23, 24, 1, 2, 3, 4, 5, 6, 7, 8, 9, 10, 11, 12]"

definition playerPathOf :: "color \<Rightarrow> int list" where
  "playerPathOf playerColor = (if playerColor = White then whitePath else blackPath)"

definition homePointsOf :: "color \<Rightarrow> int list" where
  "homePointsOf playerColor =
     (if playerColor = White then [6, 5, 4, 3, 2, 1] else [19, 20, 21, 22, 23, 24])"

definition emptyPoints :: "color list list" where
  "emptyPoints = replicate 24 []"

definition initializeBoard :: board where
  "initializeBoard =
     \<lparr>points = emptyPoints
        [11 := replicate 2 White, 19 := replicate 3 White, 0 := replicate 5 White,
         17 := replicate 5 White, 6 := replicate 5 Black, 4 := replicate 3 Black,
         23 := replicate 5 Black, 12 := replicate 2 Black],
      bar = \<lparr>white = 0, black = 0\<rparr>,
      home = \<lparr>white = 0, black = 0\<rparr>\<rparr>"

section \<open>Legality rules\<close>

definition getOpponentColor :: "color \<Rightarrow> color" where
  "getOpponentColor playerColor = (if playerColor = White then Black else Opponent)"

definition isPointBlocked :: "int \<Rightarrow> color \<Rightarrow> board \<Rightarrow> bool" where
  "isPointBlocked pointIndex playerColor currentBoardState =
     (case elemAt (points currentBoardState) pointIndex of
        None \<Rightarrow> False
      | Some checkers \<Rightarrow>
          if checkers = [] then False
          else hd checkers = getOpponentColor playerColor \<and> 2 \<le> length checkers)"

text \<open>
  The loop of \<open>areAllCheckersInHomeBoard\<close> over the point indices: \<open>None\<close> is the early
  \<open>return false\<close>, \<open>Some n\<close> the value of \<open>checkersInHomeQuadrantOnBoard\<close> at the end.
\<close>

fun homeQuadrantLoop :: "color \<Rightarrow> board \<Rightarrow> nat list \<Rightarrow> int \<Rightarrow> int option" where
  "homeQuadrantLoop playerColor b [] acc = Some acc"
| "homeQuadrantLoop playerColor b (i # rest) acc =
     (let gamePoint = int i + 1;
          checkersOnCurrentPoint =
            int (length (filter (\<lambda>c. c = playerColor) (checkersAt b (int i))))
      in if 0 < checkersOnCurrentPoint then
           (if gamePoint \<notin> set (homePointsOf playerColor) then None
            else homeQuadrantLoop playerColor b rest (acc + checkersOnCurrentPoint))
         else homeQuadrantLoop playerColor b rest acc)"

definition areAllCheckersInHomeBoard :: "color \<Rightarrow> board \<Rightarrow> bool" where
  "areAllCheckersInHomeBoard playerColor currentBoardState =
     (if positive (cnt (bar currentBoardState) playerColor) then False
      else case homeQuadrantLoop playerColor currentBoardState [0..<24] 0 of
             None \<Rightarrow> False
           | Some checkersInHomeQuadrantOnBoard \<Rightarrow>
               (case cnt (home currentBoardState) playerColor of
                  None \<Rightarrow> False
                | Some checkersBorneOff \<Rightarrow>
                    checkersBorneOff + checkersInHomeQuadrantOnBoard = 15))"

text \<open>
  The inner loops of the bear-off test: no checker of the player on a home point listed
  before \<open>fromPoint\<close> in \<open>homePoints\<close> (false when \<open>fromPoint\<close> is not a home point), and
  no checker of the player on any point beyond \<open>fromPoint\<close>.
\<close>

definition noCheckersEarlier :: "color \<Rightarrow> board \<Rightarrow> int \<Rightarrow> bool" where
  "noCheckersEarlier playerColor b fromPointHomeIndex =
     (fromPointHomeIndex \<noteq> -1 \<and>
      list_all (\<lambda>furtherPoint. playerColor \<notin> set (checkersAt b (furtherPoint - 1)))
        (take (nat fromPointHomeIndex) (homePointsOf playerColor)))"

definition isFurthestChecker :: "color \<Rightarrow> board \<Rightarrow> int \<Rightarrow> bool" where
  "isFurthestChecker player b fromPoint =
     list_all (\<lambda>k. \<not> (player \<in> set (checkersAt b (int k)) \<and>
                      (if player = White then fromPoint < int k + 1 else int k + 1 < fromPoint)))
       [0..<24]"

text \<open>One die tried on one checker in \<open>checkIfAnyPossibleMoves\<close>.\<close>

definition dieGivesMove :: "board \<Rightarrow> color \<Rightarrow> int \<Rightarrow> int \<Rightarrow> int \<Rightarrow> bool" where
  "dieGivesMove currentBoardState player fromPoint fromPointIndexInPath die =
     (let isWhite = (player = White);
          playerPath = playerPathOf player;
          targetPathIndex = fromPointIndexInPath + die
      in if int (length playerPath) \<le> targetPathIndex then
           areAllCheckersInHomeBoard player currentBoardState \<and>
           noCheckersEarlier player currentBoardState (indexOf (homePointsOf player) fromPoint) \<and>
           ((if isWhite then fromPoint = die else 25 - fromPoint = die) \<or>
            ((if isWhite then fromPoint else 25 - fromPoint) \<le> die \<and>
             isFurthestChecker player currentBoardState fromPoint))
         else
           (case elemAt playerPath targetPathIndex of
              None \<Rightarrow> False
            | Some targetGamePoint \<Rightarrow>
                1 \<le> targetGamePoint \<and> targetGamePoint \<le> 24 \<and>
                \<not> isPointBlocked (targetGamePoint - 1) player currentBoardState))"

definition barEntryOpen :: "board \<Rightarrow> color \<Rightarrow> int \<Rightarrow> bool" where
  "barEntryOpen currentBoardState player die =
     (let targetGamePoint = (if player = White then die else 18 + die);
          targetPointIndex = targetGamePoint - 1
      in 0 \<le> targetPointIndex \<and> targetPointIndex < 24 \<and>
         \<not> isPointBlocked targetPointIndex player currentBoardState)"

definition checkIfAnyPossibleMoves :: "board \<Rightarrow> color \<Rightarrow> int list \<Rightarrow> bool" where
  "checkIfAnyPossibleMoves currentBoardState player currentDice =
     (if positive (cnt (bar currentBoardState) player) then
        list_ex (barEntryOpen currentBoardState player) currentDice
      else
        list_ex (\<lambda>i.
          let currentPointCheckers = checkersAt currentBoardState (int i) in
          currentPointCheckers \<noteq> [] \<and> hd currentPointCheckers = player \<and>
          (let fromPoint = int i + 1;
               fromPointIndexInPath = indexOf (playerPathOf player) fromPoint
           in fromPointIndexInPath \<noteq> -1 \<and>
              list_ex (dieGivesMove currentBoardState player fromPoint fromPointIndexInPath)
                currentDice))
          [0..<24])"


section \<open>The move generator\<close>

text \<open>A source is the string \<open>'bar'\<close> or a point number.\<close>

datatype source = Bar | Pt int

record move =
  targetPoint :: int
  diceUsed :: "int list"

text \<open>
  The object returned by \<open>checkSingleStepLogic\<close>; \<open>targetGamePoint\<close> is \<open>None\<close> for
  \<open>null\<close>.
\<close>

record stepResult =
  targetGamePoint :: "int option"
  isValid :: bool
  isBearingOff :: bool

definition checkSingleStepLogic ::
  "source \<Rightarrow> int \<Rightarrow> int \<Rightarrow> board \<Rightarrow> color \<Rightarrow> bool \<Rightarrow> stepResult" where
  "checkSingleStepLogic startPoint startPathIndex die tempBoard playerColor isInitialFromBar =
     (let isWhite = (playerColor = White);
          playerPath = playerPathOf playerColor
      in if isInitialFromBar \<and> startPoint = Bar then
           (let target = (if isWhite then die else 18 + die);
                targetPointIndex = target - 1
            in \<lparr>targetGamePoint = Some target,
                isValid = (0 \<le> targetPointIndex \<and> targetPointIndex < 24 \<and>
                           \<not> isPointBlocked targetPointIndex playerColor tempBoard),
                isBearingOff = False\<rparr>)
         else
           (let targetPathIndex = startPathIndex + die
            in if int (length playerPath) \<le> targetPathIndex then
                 (case startPoint of
                    Bar \<Rightarrow> \<lparr>targetGamePoint = None, isValid = False, isBearingOff = True\<rparr>
                  | Pt p \<Rightarrow>
                      (let distanceToBearOff = (if isWhite then p else 25 - p) in
                       if areAllCheckersInHomeBoard playerColor tempBoard \<and>
                          noCheckersEarlier playerColor tempBoard
                            (indexOf (homePointsOf playerColor) p) \<and>
                          (die = distanceToBearOff \<or> distanceToBearOff < die)
                       then \<lparr>targetGamePoint = Some (if isWhite then 0 else 25),
                             isValid = True, isBearingOff = True\<rparr>
                       else \<lparr>targetGamePoint = None, isValid = False, isBearingOff = True\<rparr>))
               else
                 (case elemAt playerPath targetPathIndex of
                    None \<Rightarrow> \<lparr>targetGamePoint = None, isValid = False, isBearingOff = False\<rparr>
                  | Some actualTargetGamePoint \<Rightarrow>
                      if 1 \<le> actualTargetGamePoint \<and> actualTargetGamePoint \<le> 24 \<and>
                         \<not> isPointBlocked (actualTargetGamePoint - 1) playerColor tempBoard
                      then \<lparr>targetGamePoint = Some actualTargetGamePoint,
                            isValid = True, isBearingOff = False\<rparr>
                      else \<lparr>targetGamePoint = None, isValid = False, isBearingOff = False\<rparr>)))"

text \<open>
  The hypothetical removal of the checker from its source in \<open>findAllMoves\<close>; \<open>None\<close> when
  \<open>checkerSuccessfullyMovedInTemp\<close> becomes false.
\<close>

definition takeFromSource :: "color \<Rightarrow> source \<Rightarrow> board \<Rightarrow> board option" where
  "takeFromSource playerColor currentFromPoint b =
     (case currentFromPoint of
        Bar \<Rightarrow>
          if isZero (cnt (bar b) playerColor) then None
          else Some (b\<lparr>bar := cntAdd (bar b) playerColor (-1)\<rparr>)
      | Pt p \<Rightarrow>
          (case elemAt (points b) (p - 1) of
             None \<Rightarrow> None
           | Some checkers \<Rightarrow>
               if checkers = [] \<or> hd checkers \<noteq> playerColor then None
               else Some (setCheckers b (p - 1) (butlast checkers))))"

text \<open>
  The hypothetical landing on a point in \<open>findAllMoves\<close>: a lone opposing checker goes to
  the bar, then the point is tested again for a block (\<open>None\<close>: the path is given up), then
  the player's colour is pushed.
\<close>

definition simulateLanding :: "color \<Rightarrow> int \<Rightarrow> board \<Rightarrow> board option" where
  "simulateLanding playerColor intermediatePoint b =
     (let checkers = checkersAt b (intermediatePoint - 1);
          afterHit =
            (if length checkers = 1 \<and> hd checkers = getOpponentColor playerColor
             then (setCheckers b (intermediatePoint - 1) (butlast checkers))
                    \<lparr>bar := cntAdd (bar b) (getOpponentColor playerColor) 1\<rparr>
             else b)
      in if isPointBlocked (intermediatePoint - 1) playerColor afterHit then None
         else Some (setCheckers afterHit (intermediatePoint - 1)
                      (checkersAt afterHit (intermediatePoint - 1) @ [playerColor])))"

text \<open>
  One die tried in the loop of \<open>findAllMoves\<close>: the checker is taken from its source, the
  step is checked, and the landing is simulated unless the step bears off. The result is
  the point reached, its index in the path (the length of the path after a bear-off) and
  the board for the next step; \<open>None\<close> when the loop body returns without pushing a move.
  A valid step always carries a target point (lemma \<open>checkSingleStepLogic_valid_target\<close>
  below), so the case of a valid step without one does not arise.
\<close>

definition tryDie ::
  "color \<Rightarrow> source \<Rightarrow> int \<Rightarrow> int \<Rightarrow> board \<Rightarrow> (int \<times> int \<times> board) option" where
  "tryDie playerColor currentFromPoint currentFromPathIndex d1 currentBoard =
     (case takeFromSource playerColor currentFromPoint currentBoard of
        None \<Rightarrow> None
      | Some tempBoardAfterD1 \<Rightarrow>
          (let r = checkSingleStepLogic currentFromPoint currentFromPathIndex d1
                     tempBoardAfterD1 playerColor False
           in if \<not> isValid r then None
              else
                (case targetGamePoint r of
                   None \<Rightarrow> None
                 | Some intermediatePoint \<Rightarrow>
                     if isBearingOff r
                     then Some (intermediatePoint, int (length (playerPathOf playerColor)),
                                tempBoardAfterD1)
                     else
                       (case simulateLanding playerColor intermediatePoint tempBoardAfterD1 of
                          None \<Rightarrow> None
                        | Some landed \<Rightarrow>
                            Some (intermediatePoint,
                                  indexOf (playerPathOf playerColor) intermediatePoint,
                                  landed)))))"

text \<open>
  \<open>findAllMoves\<close> returns the moves it pushes, in the order it pushes them. Each die of
  the sorted remaining dice is tried; the dice left for the recursive call are the sorted
  dice without the first occurrence of that die.
\<close>

function findAllMoves ::
  "color \<Rightarrow> source \<Rightarrow> int \<Rightarrow> int list \<Rightarrow> board \<Rightarrow> int list \<Rightarrow> move list" where
  "findAllMoves playerColor currentFromPoint currentFromPathIndex remainingDice currentBoard pathDice =
     (if remainingDice = [] then []
      else
        concat (map (\<lambda>d1.
          case tryDie playerColor currentFromPoint currentFromPathIndex d1 currentBoard of
            None \<Rightarrow> []
          | Some (intermediatePoint, intermediatePointPathIndex, landed) \<Rightarrow>
              \<lparr>targetPoint = intermediatePoint, diceUsed = sort (pathDice @ [d1])\<rparr> #
              (if intermediatePointPathIndex \<noteq> -1 \<and> remove1 d1 (sort remainingDice) \<noteq> []
               then findAllMoves playerColor (Pt intermediatePoint) intermediatePointPathIndex
                      (remove1 d1 (sort remainingDice)) landed (sort (pathDice @ [d1]))
               else []))
          (sort remainingDice)))"
  by pat_completeness auto
termination
proof (relation "measure (\<lambda>(c, f, i, ds, b, pd). length ds)", goal_cases)
  case 1
  show ?case by simp
next
  case (2 playerColor currentFromPoint currentFromPathIndex remainingDice currentBoard pathDice d1)
  then have "d1 \<in> set remainingDice" by simp
  then have "length (remove1 d1 (sort remainingDice)) < length remainingDice"
    by (simp add: length_remove1) (cases remainingDice; simp)
  then show ?case by simp
qed

declare findAllMoves.simps [simp del]

text \<open>
  The \<open>Map\<close> keyed by target point, as the list of its values in insertion order: setting
  an existing key replaces the value where it stands. Two sorted dice lists give the same
  joined string exactly when they are equal.
\<close>

definition considerMove :: "move list \<Rightarrow> move \<Rightarrow> move list" where
  "considerMove uniqueMovesMap m0 =
     (let m = m0\<lparr>diceUsed := sort (diceUsed m0)\<rparr>;
          replaced = map (\<lambda>e. if targetPoint e = targetPoint m then m else e) uniqueMovesMap
      in case find (\<lambda>e. targetPoint e = targetPoint m) uniqueMovesMap of
           None \<Rightarrow> uniqueMovesMap @ [m]
         | Some existingMove \<Rightarrow>
             if diceUsed m \<noteq> sort (diceUsed existingMove) then
               (if length (diceUsed m) < length (diceUsed existingMove) then replaced
                else if length (diceUsed m) = length (diceUsed existingMove) then
                  (if sum_list (diceUsed existingMove) < sum_list (diceUsed m) then replaced
                   else uniqueMovesMap)
                else uniqueMovesMap)
             else uniqueMovesMap)"

definition uniqueMoves :: "move list \<Rightarrow> move list" where
  "uniqueMoves moves = foldl considerMove [] moves"

text \<open>
  \<open>calculatePossibleMoves\<close> reads the state variable \<open>mustReenterFromBar\<close>; it is the first
  argument here.
\<close>

definition calculatePossibleMoves ::
  "bool \<Rightarrow> source \<Rightarrow> int list \<Rightarrow> color \<Rightarrow> board \<Rightarrow> move list" where
  "calculatePossibleMoves mustReenterFromBar fromPoint currentDice playerColor b =
     (if mustReenterFromBar \<and> fromPoint = Bar then
        concat (map (\<lambda>die.
          let r = checkSingleStepLogic Bar (-1) die b playerColor True
          in if isValid r
             then [\<lparr>targetPoint = (if playerColor = White then die else 18 + die),
                     diceUsed = [die]\<rparr>]
             else []) currentDice)
      else
        (case fromPoint of
           Bar \<Rightarrow> []
         | Pt p \<Rightarrow>
             (case elemAt (points b) (p - 1) of
                None \<Rightarrow> []
              | Some checkers \<Rightarrow>
                  if checkers = [] \<or> hd checkers \<noteq> playerColor then []
                  else
                    (let fromPointIndexInPath = indexOf (playerPathOf playerColor) p
                     in if fromPointIndexInPath = -1 then []
                        else uniqueMoves
                               (findAllMoves playerColor fromPoint fromPointIndexInPath
                                  currentDice b [])))))"


section \<open>The game state and its handlers\<close>

text \<open>
  The value of \<open>gameMessage\<close>: one constructor for each message text the handlers set, with
  the values the text interpolates.
\<close>

datatype message =
    MsgClickStart | MsgErrorNoBar | MsgErrorNoSource | MsgBorneOff color | MsgMoveMade
  | MsgRolled color int int | MsgBarSkipped color | MsgNoMoves color | MsgMatchStarted
  | MsgNoUndo | MsgUndoError | MsgUndone | MsgMustReenter color | MsgPleaseRoll
  | MsgDeselected | MsgReenterFirst | MsgReenterHighlighted | MsgNoSelectBearOff
  | MsgSelected int | MsgNotYours | MsgNewGame color | MsgTurnEnded color

record moveRecord =
  fromPoint :: source
  toPoint :: int
  checkerColor :: color
  hitOpponentChecker :: bool
  hitCheckerColor :: "color option"
  usedDice :: "int list"

text \<open>
  The state variables of the component \<open>BackgammonGame\<close> that the rules read or write.
  The displayed dice, the modal dialogs and the sound switch are left out.
\<close>

record game =
  boardState :: board
  availableDice :: "int list"
  currentPlayer :: color
  selectedPoint :: "int option"
  possibleMovesInfo :: "move list"
  mustReenterFromBar :: bool
  moveHistory :: "moveRecord list"
  isPlaying :: bool
  gameMessage :: message
  playerScore :: int
  opponentScore :: int
  matchFormat :: int

text \<open>
  The state after the component is mounted: the initial values of the state variables, with
  the board set by the effect that calls \<open>initializeBoard\<close>.
\<close>

definition initialState :: game where
  "initialState =
     \<lparr>boardState = initializeBoard, availableDice = [], currentPlayer = White,
      selectedPoint = None, possibleMovesInfo = [], mustReenterFromBar = False,
      moveHistory = [], isPlaying = False, gameMessage = MsgClickStart,
      playerScore = 0, opponentScore = 0, matchFormat = 7\<rparr>"

definition startMatch :: "game \<Rightarrow> game" where
  "startMatch s =
     s\<lparr>playerScore := 0, opponentScore := 0, gameMessage := MsgMatchStarted,
       isPlaying := True, availableDice := [], currentPlayer := White,
       boardState := initializeBoard, selectedPoint := None, possibleMovesInfo := [],
       mustReenterFromBar := False, moveHistory := []\<rparr>"

text \<open>
  \<open>endTurn\<close> is a callback: it reads \<open>isPlaying\<close>, the home counts and \<open>currentPlayer\<close>
  from the render that created it (the state \<open>cl\<close>) and updates the current state \<open>s\<close>.
\<close>

definition endTurn :: "game \<Rightarrow> game \<Rightarrow> game" where
  "endTurn cl s =
     (if \<not> isPlaying cl then s
      else if white (home (boardState cl)) = 15 then
        s\<lparr>playerScore := playerScore s + 1, boardState := initializeBoard,
          availableDice := [], selectedPoint := None, possibleMovesInfo := [],
          mustReenterFromBar := False, currentPlayer := White,
          gameMessage := MsgNewGame White, moveHistory := []\<rparr>
      else if black (home (boardState cl)) = 15 then
        s\<lparr>opponentScore := opponentScore s + 1, boardState := initializeBoard,
          availableDice := [], selectedPoint := None, possibleMovesInfo := [],
          mustReenterFromBar := False, currentPlayer := Black,
          gameMessage := MsgNewGame Black, moveHistory := []\<rparr>
      else
        s\<lparr>currentPlayer := (if currentPlayer s = White then Black else White),
          availableDice := [], selectedPoint := None, possibleMovesInfo := [],
          mustReenterFromBar := False,
          gameMessage := MsgTurnEnded (getOpponentColor (currentPlayer cl)),
          moveHistory := []\<rparr>)"

text \<open>Each die to consume removes its first occurrence, if there is one.\<close>

definition consumeDice :: "int list \<Rightarrow> int list \<Rightarrow> int list" where
  "consumeDice available diceToConsume = foldl (\<lambda>acc die. remove1 die acc) available diceToConsume"

text \<open>
  The first part of \<open>performMove\<close>: taking the checker from its source. \<open>None\<close> is the
  \<open>TypeError\<close> of reading \<open>checkers\<close> of a point that does not exist, \<open>Inl\<close> the early
  return with an error message, \<open>Inr\<close> the board and \<open>checkerToMove\<close>.
\<close>

definition liftChecker :: "board \<Rightarrow> color \<Rightarrow> source \<Rightarrow> (message + board \<times> color) option" where
  "liftChecker b player src =
     (case src of
        Bar \<Rightarrow>
          if positive (cnt (bar b) player)
          then Some (Inr (b\<lparr>bar := cntAdd (bar b) player (-1)\<rparr>, player))
          else Some (Inl MsgErrorNoBar)
      | Pt p \<Rightarrow>
          (case elemAt (points b) (p - 1) of
             None \<Rightarrow> None
           | Some checkers \<Rightarrow>
               if checkers = [] \<or> hd checkers \<noteq> player then Some (Inl MsgErrorNoSource)
               else Some (Inr (setCheckers b (p - 1) (butlast checkers), last checkers))))"

text \<open>
  The placing of the checker on a point in \<open>performMove\<close>: the hit test, the removal of the
  hit checker to the bar, the push. The result also carries \<open>hitOpponentChecker\<close> and
  \<open>hitCheckerColor\<close>.
\<close>

definition placeChecker ::
  "board \<Rightarrow> color \<Rightarrow> int \<Rightarrow> color \<Rightarrow> (board \<times> bool \<times> color option) option" where
  "placeChecker newBoardState player dst checkerToMove =
     (case elemAt (points newBoardState) (dst - 1) of
        None \<Rightarrow> None
      | Some checkers \<Rightarrow>
          (let hit = (length checkers = 1 \<and> hd checkers = getOpponentColor player);
               afterHit =
                 (if hit
                  then (setCheckers newBoardState (dst - 1) (butlast checkers))
                         \<lparr>bar := cntAdd (bar newBoardState) (getOpponentColor player) 1\<rparr>
                  else newBoardState)
           in Some (setCheckers afterHit (dst - 1)
                      (checkersAt afterHit (dst - 1) @ [checkerToMove]),
                    hit, if hit then Some (getOpponentColor player) else None)))"

text \<open>
  \<open>performMove\<close>. The calls \<open>setTimeout(endTurn, _)\<close> are not part of it: the timer runs
  \<open>endTurn\<close> later, as a step of its own. The direct call of \<open>endTurn\<close> after a bear-off
  that completes a home uses the callback of the render in which the move started.
\<close>

definition performMove :: "game \<Rightarrow> source \<Rightarrow> int \<Rightarrow> int list \<Rightarrow> game option" where
  "performMove s src dst diceToConsume =
     (case liftChecker (boardState s) (currentPlayer s) src of
        None \<Rightarrow> None
      | Some (Inl msg) \<Rightarrow> Some (s\<lparr>gameMessage := msg\<rparr>)
      | Some (Inr (newBoardState, checkerToMove)) \<Rightarrow>
          if dst = 0 \<or> dst = 25 then
            (let borneOff =
                   (if dst = 0
                    then newBoardState\<lparr>home := (home newBoardState)
                           \<lparr>white := white (home newBoardState) + 1\<rparr>\<rparr>
                    else newBoardState\<lparr>home := (home newBoardState)
                           \<lparr>black := black (home newBoardState) + 1\<rparr>\<rparr>);
                 s' = s\<lparr>boardState := borneOff,
                        gameMessage := MsgBorneOff (currentPlayer s),
                        selectedPoint := None,
                        availableDice := consumeDice (availableDice s) diceToConsume,
                        possibleMovesInfo := [],
                        moveHistory := moveHistory s @
                          [\<lparr>fromPoint = src, toPoint = dst, checkerColor = currentPlayer s,
                            hitOpponentChecker = False, hitCheckerColor = None,
                            usedDice = diceToConsume\<rparr>]\<rparr>
             in Some (if white (home borneOff) = 15 \<or> black (home borneOff) = 15
                      then endTurn s s' else s'))
          else
            (case placeChecker newBoardState (currentPlayer s) dst checkerToMove of
               None \<Rightarrow> None
             | Some (placed, hit, hitColor) \<Rightarrow>
                 Some (s\<lparr>boardState := placed,
                         selectedPoint := None,
                         gameMessage := MsgMoveMade,
                         moveHistory := moveHistory s @
                           [\<lparr>fromPoint = src, toPoint = dst, checkerColor = currentPlayer s,
                             hitOpponentChecker = hit, hitCheckerColor = hitColor,
                             usedDice = diceToConsume\<rparr>],
                         availableDice := consumeDice (availableDice s) diceToConsume,
                         possibleMovesInfo := []\<rparr>)))"

definition rollDiceHandler :: "game \<Rightarrow> int \<Rightarrow> int \<Rightarrow> game" where
  "rollDiceHandler s die1 die2 =
     (if \<not> isPlaying s then s
      else
        (let newAvailableDice = (if die1 = die2 then [die1, die1, die1, die1] else [die1, die2]);
             initialPossibleMoves =
               checkIfAnyPossibleMoves (boardState s) (currentPlayer s) newAvailableDice
         in s\<lparr>availableDice := newAvailableDice,
              gameMessage :=
                (if positive (cnt (bar (boardState s)) (currentPlayer s)) \<and> \<not> initialPossibleMoves
                 then MsgBarSkipped (currentPlayer s)
                 else if \<not> initialPossibleMoves then MsgNoMoves (currentPlayer s)
                 else MsgRolled (currentPlayer s) die1 die2),
              selectedPoint := None, possibleMovesInfo := [], moveHistory := []\<rparr>))"


text \<open>
  The board part of \<open>undoLastMove\<close>. \<open>None\<close> is a \<open>TypeError\<close> (pushing onto a point that
  does not exist), \<open>Some None\<close> the early return after the error message, \<open>Some (Some b)\<close>
  the board handed to \<open>setBoardState\<close>.
\<close>

definition pushChecker :: "board \<Rightarrow> int \<Rightarrow> color \<Rightarrow> board option" where
  "pushChecker b i c =
     (case elemAt (points b) i of
        None \<Rightarrow> None
      | Some checkers \<Rightarrow> Some (setCheckers b i (checkers @ [c])))"

definition returnChecker :: "board \<Rightarrow> moveRecord \<Rightarrow> board option option" where
  "returnChecker b lastMove =
     (if toPoint lastMove = 0 \<or> toPoint lastMove = 25 then
        (let lowered =
               (if toPoint lastMove = 0
                then b\<lparr>home := (home b)\<lparr>white := white (home b) - 1\<rparr>\<rparr>
                else b\<lparr>home := (home b)\<lparr>black := black (home b) - 1\<rparr>\<rparr>)
         in case fromPoint lastMove of
              Bar \<Rightarrow> None
            | Pt p \<Rightarrow> map_option Some (pushChecker lowered (p - 1) (checkerColor lastMove)))
      else
        (case elemAt (points b) (toPoint lastMove - 1) of
           None \<Rightarrow> Some None
         | Some checkers \<Rightarrow>
             if checkers = [] \<or> last checkers \<noteq> checkerColor lastMove then Some None
             else
               (let popped = setCheckers b (toPoint lastMove - 1) (butlast checkers)
                in case fromPoint lastMove of
                     Bar \<Rightarrow>
                       Some (Some (popped\<lparr>bar := cntAdd (bar popped) (checkerColor lastMove) 1\<rparr>))
                   | Pt p \<Rightarrow>
                       map_option Some (pushChecker popped (p - 1) (checkerColor lastMove)))))"

definition returnHitChecker :: "board \<Rightarrow> moveRecord \<Rightarrow> board option" where
  "returnHitChecker b lastMove =
     (case hitCheckerColor lastMove of
        None \<Rightarrow> Some b
      | Some hitColor \<Rightarrow>
          if hitOpponentChecker lastMove then
            (let lowered = b\<lparr>bar := cntAdd (bar b) hitColor (-1)\<rparr>
             in if toPoint lastMove \<noteq> 0 \<and> toPoint lastMove \<noteq> 25
                then pushChecker lowered (toPoint lastMove - 1) hitColor
                else Some lowered)
          else Some b)"

text \<open>
  \<open>undoLastMove\<close>. The history is shortened before the board is touched, so the early
  return after the error message keeps the shortened history. The refunded dice are sorted
  in descending order.
\<close>

definition undoLastMove :: "game \<Rightarrow> game option" where
  "undoLastMove s =
     (if moveHistory s = [] then Some (s\<lparr>gameMessage := MsgNoUndo\<rparr>)
      else
        (let lastMove = last (moveHistory s);
             newMoveHistory = butlast (moveHistory s)
         in case returnChecker (boardState s) lastMove of
              None \<Rightarrow> None
            | Some None \<Rightarrow>
                Some (s\<lparr>moveHistory := newMoveHistory, gameMessage := MsgUndoError\<rparr>)
            | Some (Some moved) \<Rightarrow>
                (case returnHitChecker moved lastMove of
                   None \<Rightarrow> None
                 | Some newBoardState \<Rightarrow>
                     (let reenter = positive (cnt (bar newBoardState) (currentPlayer s))
                      in Some (s\<lparr>moveHistory := newMoveHistory,
                                 boardState := newBoardState,
                                 availableDice :=
                                   rev (sort (availableDice s @ usedDice lastMove)),
                                 selectedPoint := None,
                                 gameMessage := MsgUndone,
                                 mustReenterFromBar := reenter,
                                 possibleMovesInfo :=
                                   (if reenter
                                    then calculatePossibleMoves (mustReenterFromBar s) Bar
                                           (availableDice s @ usedDice lastMove)
                                           (currentPlayer s) newBoardState
                                    else [])\<rparr>)))))"

text \<open>
  \<open>handlePointClick\<close>. The board calls it with the point numbers \<open>1 .. 24\<close> and with \<open>0\<close>
  and \<open>25\<close> for the two bear-off areas; \<open>None\<close> is the \<open>TypeError\<close> another number gives.
\<close>

definition handlePointClick :: "game \<Rightarrow> int \<Rightarrow> game option" where
  "handlePointClick s pointNumber =
     (if \<not> isPlaying s \<or> availableDice s = [] then Some (s\<lparr>gameMessage := MsgPleaseRoll\<rparr>)
      else if selectedPoint s = Some pointNumber then
        Some (s\<lparr>selectedPoint := None, possibleMovesInfo := [], gameMessage := MsgDeselected\<rparr>)
      else
        (let isClickOnBearOffArea = (pointNumber = 0 \<or> pointNumber = 25);
             targetMoveInfo = find (\<lambda>m. targetPoint m = pointNumber) (possibleMovesInfo s)
         in if mustReenterFromBar s then
              (if isClickOnBearOffArea then Some (s\<lparr>gameMessage := MsgReenterFirst\<rparr>)
               else case targetMoveInfo of
                      Some m \<Rightarrow> performMove s Bar pointNumber (diceUsed m)
                    | None \<Rightarrow> Some (s\<lparr>gameMessage := MsgReenterHighlighted\<rparr>))
            else if selectedPoint s \<noteq> None \<and> targetMoveInfo \<noteq> None then
              (case (selectedPoint s, targetMoveInfo) of
                 (Some sp, Some m) \<Rightarrow> performMove s (Pt sp) pointNumber (diceUsed m)
               | _ \<Rightarrow> None)
            else if isClickOnBearOffArea then
              Some (s\<lparr>gameMessage := MsgNoSelectBearOff, selectedPoint := None,
                      possibleMovesInfo := []\<rparr>)
            else
              (case elemAt (points (boardState s)) (pointNumber - 1) of
                 None \<Rightarrow> None
               | Some pointCheckers \<Rightarrow>
                   if pointCheckers \<noteq> [] \<and> hd pointCheckers = currentPlayer s then
                     Some (s\<lparr>selectedPoint := Some pointNumber,
                             possibleMovesInfo :=
                               calculatePossibleMoves (mustReenterFromBar s) (Pt pointNumber)
                                 (availableDice s) (currentPlayer s) (boardState s),
                             gameMessage := MsgSelected pointNumber\<rparr>)
                   else
                     Some (s\<lparr>gameMessage := MsgNotYours, selectedPoint := None,
                             possibleMovesInfo := []\<rparr>))))"

text \<open>The three effects that run after a render and write state variables.\<close>

definition effectMatchEnd :: "game \<Rightarrow> game" where
  "effectMatchEnd s =
     (if isPlaying s \<and>
         ((matchFormat s + 1) div 2 \<le> playerScore s \<or> (matchFormat s + 1) div 2 \<le> opponentScore s)
      then s\<lparr>isPlaying := False\<rparr> else s)"

definition effectBar :: "game \<Rightarrow> game" where
  "effectBar s =
     (if isPlaying s \<and> positive (cnt (bar (boardState s)) (currentPlayer s)) then
        s\<lparr>mustReenterFromBar := True,
          gameMessage := MsgMustReenter (currentPlayer s),
          possibleMovesInfo :=
            (if availableDice s \<noteq> []
             then calculatePossibleMoves (mustReenterFromBar s) Bar (availableDice s)
                    (currentPlayer s) (boardState s)
             else possibleMovesInfo s)\<rparr>
      else
        s\<lparr>mustReenterFromBar := False,
          possibleMovesInfo :=
            (if selectedPoint s = None \<and> possibleMovesInfo s \<noteq> [] then []
             else possibleMovesInfo s)\<rparr>)"

definition effectMoves :: "game \<Rightarrow> game" where
  "effectMoves s =
     (case selectedPoint s of
        Some sp \<Rightarrow>
          if availableDice s \<noteq> [] then
            s\<lparr>possibleMovesInfo :=
                calculatePossibleMoves (mustReenterFromBar s) (Pt sp) (availableDice s)
                  (currentPlayer s) (boardState s)\<rparr>
          else s
      | None \<Rightarrow>
          if possibleMovesInfo s \<noteq> [] \<and> \<not> mustReenterFromBar s
          then s\<lparr>possibleMovesInfo := []\<rparr> else s)"

section \<open>Runs of the game\<close>

text \<open>
  The events a game consists of: the start of a match, a roll, a click on a point or a
  bear-off area, an undo, the end of a turn (run by a timer; here with the callback of the
  current render) and the three effects. The dice component rolls faces from 1 to 6, so a
  roll of other values is no event (\<open>None\<close>); for the other events \<open>None\<close> is the
  \<open>TypeError\<close> of the handler. Every handler reads the state of the render in which the
  event occurs.
\<close>

datatype event =
    Start | Roll int int | Click int | Undo | TurnEnd | EffectBar | EffectMoves | EffectMatchEnd

fun step :: "game \<Rightarrow> event \<Rightarrow> game option" where
  "step s Start = Some (startMatch s)"
| "step s (Roll die1 die2) =
     (if 1 \<le> die1 \<and> die1 \<le> 6 \<and> 1 \<le> die2 \<and> die2 \<le> 6
      then Some (rollDiceHandler s die1 die2) else None)"
| "step s (Click pointNumber) = handlePointClick s pointNumber"
| "step s Undo = undoLastMove s"
| "step s TurnEnd = Some (endTurn s s)"
| "step s EffectBar = Some (effectBar s)"
| "step s EffectMoves = Some (effectMoves s)"
| "step s EffectMatchEnd = Some (effectMatchEnd s)"

fun run :: "game \<Rightarrow> event list \<Rightarrow> game option" where
  "run s [] = Some s"
| "run s (e # es) = (case step s e of None \<Rightarrow> None | Some s' \<Rightarrow> run s' es)"

text \<open>
  The reachable states. Besides the events above, a state is reached by applying any move
  the generator offers for any source, and by \<open>endTurn\<close> with the callback of any render.
\<close>

inductive reachable :: "game \<Rightarrow> bool" where
  reach_init: "reachable initialState"
| reach_step: "reachable s \<Longrightarrow> step s e = Some s' \<Longrightarrow> reachable s'"
| reach_move:
    "reachable s \<Longrightarrow>
     m \<in> set (calculatePossibleMoves (mustReenterFromBar s) src (availableDice s)
                (currentPlayer s) (boardState s)) \<Longrightarrow>
     performMove s src (targetPoint m) (diceUsed m) = Some s' \<Longrightarrow> reachable s'"
| reach_endTurn: "reachable s \<Longrightarrow> reachable (endTurn cl s)"

section \<open>Valid sources and rejected clicks\<close>

text \<open>
  A source holds a checker the player may move: the bar with a positive count, or a point
  whose first checker is the player's. This is the test \<open>performMove\<close>,
  \<open>calculatePossibleMoves\<close> and \<open>handlePointClick\<close> make before they touch a source.
\<close>

definition holdsChecker :: "board \<Rightarrow> color \<Rightarrow> source \<Rightarrow> bool" where
  "holdsChecker b player src =
     (case src of
        Bar \<Rightarrow> positive (cnt (bar b) player)
      | Pt p \<Rightarrow>
          (case elemAt (points b) (p - 1) of
             None \<Rightarrow> False
           | Some checkers \<Rightarrow> checkers \<noteq> [] \<and> hd checkers = player))"

text \<open>
  The clicks \<open>handlePointClick\<close> answers with a message only: no dice to play, or a click
  that is neither a deselection nor the target of an offered move and does not select a
  checker of the player (a bear-off area, or a point that is not the player's; while
  checkers wait on the bar, any click that is not an offered entry point).
\<close>

definition rejectedClick :: "game \<Rightarrow> int \<Rightarrow> bool" where
  "rejectedClick s pointNumber =
     (0 \<le> pointNumber \<and> pointNumber \<le> 25 \<and>
      (\<not> isPlaying s \<or> availableDice s = [] \<or>
       (selectedPoint s \<noteq> Some pointNumber \<and>
        (let isClickOnBearOffArea = (pointNumber = 0 \<or> pointNumber = 25);
             targetMoveInfo = find (\<lambda>m. targetPoint m = pointNumber) (possibleMovesInfo s)
         in if mustReenterFromBar s then isClickOnBearOffArea \<or> targetMoveInfo = None
            else (selectedPoint s = None \<or> targetMoveInfo = None) \<and>
                 (isClickOnBearOffArea \<or>
                  \<not> holdsChecker (boardState s) (currentPlayer s) (Pt pointNumber))))))"

section \<open>Positions used in the examples\<close>

text \<open>
  A White checker alone on point 3 with the other fourteen borne off; the same with a second
  White checker on point 4 (thirteen borne off).
\<close>

definition loneWhiteOn3 :: board where
  "loneWhiteOn3 =
     \<lparr>points = emptyPoints[2 := [White]],
      bar = \<lparr>white = 0, black = 0\<rparr>,
      home = \<lparr>white = 14, black = 0\<rparr>\<rparr>"

definition whiteOn3And4 :: board where
  "whiteOn3And4 =
     \<lparr>points = emptyPoints[2 := [White], 3 := [White]],
      bar = \<lparr>white = 0, black = 0\<rparr>,
      home = \<lparr>white = 13, black = 0\<rparr>\<rparr>"

text \<open>
  A game from the start of a match. White rolls 1 and 2 and plays 12 to 11 and 1 to 23; the
  turn ends; Black rolls 4 and 1 and plays 7 to 11, where a single White checker stands.
\<close>

definition openingRun :: "event list" where
  "openingRun =
     [Start, Roll 1 2, Click 12, Click 11, Click 1, Click 23, TurnEnd,
      Roll 4 1, Click 7, Click 11]"

definition mixedState :: game where
  "mixedState =
     \<lparr>boardState =
        \<lparr>points =
           [[White, White, White, White], [], [], [], [Black, Black, Black],
            [], [Black, Black, Black, Black], [], [], [], [White, Black],
            [White], [Black, Black], [], [], [], [],
            [White, White, White, White, White], [], [White, White, White], [],
            [], [White], [Black, Black, Black, Black, Black]],
         bar = \<lparr>white = 0, black = 0\<rparr>, home = \<lparr>white = 0, black = 0\<rparr>\<rparr>,
      availableDice = [1], currentPlayer = Black, selectedPoint = None,
      possibleMovesInfo = [], mustReenterFromBar = False,
      moveHistory =
        [\<lparr>fromPoint = Pt 7, toPoint = 11, checkerColor = Black,
          hitOpponentChecker = False, hitCheckerColor = None, usedDice = [4]\<rparr>],
      isPlaying = True, gameMessage = MsgMoveMade, playerScore = 0,
      opponentScore = 0, matchFormat = 7\<rparr>"

text \<open>
  The game goes on: Black plays 7 to 8 with the 1 and the turn ends. The points are then
  those of \<open>secondTurnPoints\<close>: White and Black share point 11, and a single Black checker
  stands on point 8.
\<close>

definition secondTurnRun :: "event list" where
  "secondTurnRun = openingRun @ [Click 7, Click 8, TurnEnd]"

definition secondTurnPoints :: "color list list" where
  "secondTurnPoints =
     [[White, White, White, White], [], [], [], [Black, Black, Black],
      [], [Black, Black, Black], [Black], [], [], [White, Black],
      [White], [Black, Black], [], [], [], [],
      [White, White, White, White, White], [], [White, White, White], [],
      [], [White], [Black, Black, Black, Black, Black]]"

text \<open>
  White then rolls a double 2 and selects point 12: the state \<open>chainState\<close>. The moves
  offered from point 12 run along 12, 10, 8, 6, 4.
\<close>

definition chainState :: game where
  "chainState =
     \<lparr>boardState =
        \<lparr>points = secondTurnPoints,
         bar = \<lparr>white = 0, black = 0\<rparr>, home = \<lparr>white = 0, black = 0\<rparr>\<rparr>,
      availableDice = [2, 2, 2, 2], currentPlayer = White, selectedPoint = Some 12,
      possibleMovesInfo =
        [\<lparr>targetPoint = 10, diceUsed = [2]\<rparr>, \<lparr>targetPoint = 8, diceUsed = [2, 2]\<rparr>,
         \<lparr>targetPoint = 6, diceUsed = [2, 2, 2]\<rparr>,
         \<lparr>targetPoint = 4, diceUsed = [2, 2, 2, 2]\<rparr>],
      mustReenterFromBar = False, moveHistory = [], isPlaying = True,
      gameMessage = MsgSelected 12, playerScore = 0, opponentScore = 0, matchFormat = 7\<rparr>"

text \<open>
  Or White rolls 1 and 2 and selects point 11, the point shared with Black: the state
  \<open>sharedSelected\<close>.
\<close>

definition sharedSelected :: game where
  "sharedSelected =
     \<lparr>boardState =
        \<lparr>points = secondTurnPoints,
         bar = \<lparr>white = 0, black = 0\<rparr>, home = \<lparr>white = 0, black = 0\<rparr>\<rparr>,
      availableDice = [1, 2], currentPlayer = White, selectedPoint = Some 11,
      possibleMovesInfo =
        [\<lparr>targetPoint = 10, diceUsed = [1]\<rparr>, \<lparr>targetPoint = 8, diceUsed = [1, 2]\<rparr>,
         \<lparr>targetPoint = 9, diceUsed = [2]\<rparr>],
      mustReenterFromBar = False, moveHistory = [], isPlaying = True,
      gameMessage = MsgSelected 11, playerScore = 0, opponentScore = 0, matchFormat = 7\<rparr>"

text \<open>
  The first selection of the game: after the start of the match and the roll of 1 and 2,
  White has selected point 12.
\<close>

definition firstSelection :: game where
  "firstSelection =
     \<lparr>boardState = initializeBoard, availableDice = [1, 2], currentPlayer = White,
      selectedPoint = Some 12,
      possibleMovesInfo =
        [\<lparr>targetPoint = 11, diceUsed = [1]\<rparr>, \<lparr>targetPoint = 9, diceUsed = [1, 2]\<rparr>,
         \<lparr>targetPoint = 10, diceUsed = [2]\<rparr>],
      mustReenterFromBar = False, moveHistory = [], isPlaying = True,
      gameMessage = MsgSelected 12, playerScore = 0, opponentScore = 0, matchFormat = 7\<rparr>"

text \<open>
  White has two checkers on the bar; Black holds points 3 and 5 with two and three
  checkers.
\<close>

definition barBlocked :: board where
  "barBlocked =
     \<lparr>points =
        [[White, White, White, White, White], [], [Black, Black], [],
         [Black, Black, Black], [], [Black, Black, Black, Black, Black], [], [], [], [],
         [], [], [], [], [], [], [White, White, White, White, White], [],
         [White, White, White], [], [], [], [Black, Black, Black, Black, Black]],
      bar = \<lparr>white = 2, black = 0\<rparr>, home = \<lparr>white = 0, black = 0\<rparr>\<rparr>"

text \<open>
  A state of bar re-entry: on the board \<open>barBlocked\<close> White has rolled 3 and 5, the flag
  \<open>mustReenterFromBar\<close> is set and no entry is offered.
\<close>

definition reentryState :: game where
  "reentryState =
     \<lparr>boardState = barBlocked, availableDice = [3, 5], currentPlayer = White,
      selectedPoint = None, possibleMovesInfo = [], mustReenterFromBar = True,
      moveHistory = [], isPlaying = True, gameMessage = MsgMustReenter White,
      playerScore = 0, opponentScore = 0, matchFormat = 7\<rparr>"

section \<open>Counting checkers\<close>

text \<open>
  The number of checkers of a colour on one point and on the 24 points, and the total of a
  colour: on the points, on the bar and borne off.
\<close>

definition countOn :: "color \<Rightarrow> color list \<Rightarrow> int" where
  "countOn c checkers = int (length (filter (\<lambda>x. x = c) checkers))"

definition onBoard :: "color \<Rightarrow> board \<Rightarrow> int" where
  "onBoard c b = sum_list (map (countOn c) (points b))"

text \<open>The value of a counter under a colour; the key \<open>'opponent'\<close> has no counter.\<close>

definition counter :: "counts \<Rightarrow> color \<Rightarrow> int" where
  "counter r c = (case cnt r c of Some n \<Rightarrow> n | None \<Rightarrow> 0)"

definition total :: "color \<Rightarrow> board \<Rightarrow> int" where
  "total c b = onBoard c b + counter (bar b) c + counter (home b) c"

text \<open>Dice are faces of a die; a move or a history record that is not a bear-off.\<close>

definition faces :: "int list \<Rightarrow> bool" where
  "faces ds = list_all (\<lambda>d. 1 \<le> d \<and> d \<le> 6) ds"

definition pointMove :: "move \<Rightarrow> bool" where
  "pointMove m = (1 \<le> targetPoint m \<and> targetPoint m \<le> 24 \<and> faces (diceUsed m))"

definition pointRecord :: "moveRecord \<Rightarrow> bool" where
  "pointRecord r = (toPoint r \<noteq> 0 \<and> toPoint r \<noteq> 25 \<and> faces (usedDice r))"

text \<open>
  The invariant of the reachable states: fifteen checkers of each colour, dice that are
  faces, and no bear-off among the offered moves and the recorded moves.
\<close>

definition gameInvariant :: "game \<Rightarrow> bool" where
  "gameInvariant s =
     (total White (boardState s) = 15 \<and> total Black (boardState s) = 15 \<and>
      faces (availableDice s) \<and> list_all pointMove (possibleMovesInfo s) \<and>
      list_all pointRecord (moveHistory s))"

section \<open>Lists, points and counters\<close>

text \<open>
  Reading and replacing the checkers of a point, and the effect of the steps of
  \<open>performMove\<close> on the total of a colour.
\<close>

lemma elemAt_Some: "elemAt xs i = Some x \<longleftrightarrow> 0 \<le> i \<and> nat i < length xs \<and> xs ! nat i = x"
  by (auto simp: elemAt_def)

lemma sum_list_update_int:
  fixes xs :: "int list"
  shows "k < length xs \<Longrightarrow> sum_list (xs[k := x]) = sum_list xs + x - xs ! k"
proof (induction xs arbitrary: k)
  case Nil
  then show ?case by simp
next
  case (Cons y ys)
  then show ?case by (cases k) simp_all
qed

lemma onBoard_setCheckers:
  assumes "elemAt (points b) i = Some old"
  shows "onBoard c (setCheckers b i new) = onBoard c b - countOn c old + countOn c new"
proof -
  from assms have i: "nat i < length (points b)" "0 \<le> i" and old: "points b ! nat i = old"
    by (auto simp: elemAt_Some)
  have "sum_list ((map (countOn c) (points b))[nat i := countOn c new]) =
        sum_list (map (countOn c) (points b)) + countOn c new - (map (countOn c) (points b)) ! nat i"
    using i by (simp add: sum_list_update_int)
  then show ?thesis using i old by (simp add: onBoard_def setCheckers_def map_update)
qed

lemma setCheckers_fields [simp]:
  "bar (setCheckers b i cs) = bar b" "home (setCheckers b i cs) = home b"
  "length (points (setCheckers b i cs)) = length (points b)"
  by (simp_all add: setCheckers_def)

lemma elemAt_setCheckers_same:
  "elemAt (points b) i = Some old \<Longrightarrow> elemAt (points (setCheckers b i cs)) i = Some cs"
  by (auto simp: elemAt_def setCheckers_def split: if_splits)

lemma elemAt_setCheckers_other:
  "i \<noteq> j \<Longrightarrow> elemAt (points (setCheckers b i cs)) j = elemAt (points b) j"
  by (auto simp: elemAt_def setCheckers_def nth_list_update)

lemma checkersAt_setCheckers_same:
  "elemAt (points b) i = Some old \<Longrightarrow> checkersAt (setCheckers b i cs) i = cs"
  by (simp add: checkersAt_def elemAt_setCheckers_same)

lemma checkersAt_setCheckers_other:
  "i \<noteq> j \<Longrightarrow> checkersAt (setCheckers b i cs) j = checkersAt b j"
  by (simp add: checkersAt_def elemAt_setCheckers_other)

lemma countOn_butlast:
  "cs \<noteq> [] \<Longrightarrow> countOn c (butlast cs) = countOn c cs - (if last cs = c then 1 else 0)"
  by (induction cs rule: rev_induct) (auto simp: countOn_def)

lemma countOn_snoc: "countOn c (cs @ [x]) = countOn c cs + (if x = c then 1 else 0)"
  by (simp add: countOn_def)

lemma countOn_Nil [simp]: "countOn c [] = 0"
  by (simp add: countOn_def)

lemma counter_cntAdd:
  "counter (cntAdd r x k) c = counter r c + (if x = c \<and> c \<noteq> Opponent then k else 0)"
  by (cases x; cases c) (simp_all add: counter_def)

lemma total_setCheckers:
  "elemAt (points b) i = Some old \<Longrightarrow>
   total c (setCheckers b i new) = total c b - countOn c old + countOn c new"
  by (simp add: total_def onBoard_setCheckers)

lemma total_bar_update:
  "total c (b\<lparr>bar := r\<rparr>) = total c b - counter (bar b) c + counter r c"
  by (simp add: total_def onBoard_def)

lemma total_home_update:
  "total c (b\<lparr>home := r\<rparr>) = total c b - counter (home b) c + counter r c"
  by (simp add: total_def onBoard_def)

lemma liftChecker_total:
  assumes "liftChecker b player src = Some (Inr (nb, x))" and "c \<noteq> Opponent"
  shows "total c nb = total c b - (if x = c then 1 else 0)"
proof (cases src)
  case Bar
  with assms show ?thesis
    by (auto simp: liftChecker_def total_bar_update counter_cntAdd split: if_splits)
next
  case (Pt p)
  with assms show ?thesis
    by (auto simp: liftChecker_def total_setCheckers countOn_butlast split: option.splits if_splits)
qed

lemma placeChecker_total:
  assumes "placeChecker nb player dst x = Some (placed, hit, hitColor)" and "c \<noteq> Opponent"
  shows "total c placed = total c nb + (if x = c then 1 else 0)"
proof -
  from assms(1) obtain cs where cs: "elemAt (points nb) (dst - 1) = Some cs"
    by (auto simp: placeChecker_def split: option.splits)
  show ?thesis
  proof (cases "length cs = 1 \<and> hd cs = getOpponentColor player")
    case True
    then obtain y where y: "cs = [y]" "y = getOpponentColor player"
      by (cases cs) auto
    let ?h = "(setCheckers nb (dst - 1) (butlast cs))\<lparr>bar := cntAdd (bar nb) (getOpponentColor player) 1\<rparr>"
    have e: "elemAt (points ?h) (dst - 1) = Some []"
      using cs y by (simp add: elemAt_setCheckers_same)
    have "placed = setCheckers ?h (dst - 1) (checkersAt ?h (dst - 1) @ [x])"
      using assms(1) cs True by (simp add: placeChecker_def Let_def)
    then have "total c placed = total c ?h - countOn c [] + countOn c ([] @ [x])"
      using e by (simp add: total_setCheckers checkersAt_def)
    moreover have "total c ?h = total c nb - countOn c cs + (if getOpponentColor player = c then 1 else 0)"
      using cs assms(2) y by (simp add: total_bar_update total_setCheckers counter_cntAdd)
    ultimately show ?thesis using y by (simp add: countOn_snoc countOn_def)
  next
    case False
    then have "placed = setCheckers nb (dst - 1) (cs @ [x])"
      using assms(1) cs by (auto simp: placeChecker_def Let_def checkersAt_def)
    then show ?thesis using cs by (simp add: total_setCheckers countOn_snoc)
  qed
qed

section \<open>The generator never offers a bear-off for dice up to 6\<close>

text \<open>
  A step bears off only when the index in the path plus the die reaches 24 and the
  starting point is a home point. The home points have the indices 6 to 11 in both paths,
  so with a die of at most 6 no step bears off, and every target the generator returns is
  a point from 1 to 24.
\<close>

lemma faces_simps [simp]:
  "faces []" "faces (d # ds) \<longleftrightarrow> 1 \<le> d \<and> d \<le> 6 \<and> faces ds"
  "faces (xs @ ys) \<longleftrightarrow> faces xs \<and> faces ys"
  by (auto simp: faces_def)

lemma faces_set: "faces ds \<longleftrightarrow> (\<forall>d\<in>set ds. 1 \<le> d \<and> d \<le> 6)"
  by (simp add: faces_def list_all_iff)

lemma faces_sort [simp]: "faces (sort ds) = faces ds"
  by (simp add: faces_set)

lemma faces_remove1: "faces ds \<Longrightarrow> faces (remove1 d ds)"
  by (auto simp: faces_set dest: notin_set_remove1)

lemma indexOf_bounds: "-1 \<le> indexOf xs x \<and> indexOf xs x < int (length xs)"
  by (induction xs) (auto simp: Let_def)

lemma indexOf_nth: "indexOf xs x \<noteq> -1 \<Longrightarrow> xs ! nat (indexOf xs x) = x"
proof (induction xs)
  case Nil
  then show ?case by simp
next
  case (Cons y ys)
  show ?case
  proof (cases "x = y")
    case True
    then show ?thesis by simp
  next
    case False
    with Cons.prems have r: "indexOf ys x \<noteq> -1" by (auto simp: Let_def split: if_splits)
    moreover have "0 \<le> indexOf ys x" using indexOf_bounds [of ys x] r by linarith
    ultimately show ?thesis using False Cons.IH by (simp add: Let_def nat_add_distrib)
  qed
qed

lemma indexOf_in_set: "indexOf xs x \<noteq> -1 \<longleftrightarrow> x \<in> set xs"
proof (induction xs)
  case Nil
  then show ?case by simp
next
  case (Cons y ys)
  have "indexOf ys x < 0 \<longleftrightarrow> indexOf ys x = -1"
    using indexOf_bounds [of ys x] by linarith
  with Cons show ?case by (auto simp: Let_def)
qed

lemma length_playerPathOf [simp]: "length (playerPathOf c) = 24"
  by (simp add: playerPathOf_def whitePath_def blackPath_def)

lemma in_whitePath: "x \<in> set whitePath \<longleftrightarrow> 1 \<le> x \<and> x \<le> 24"
  unfolding whitePath_def by (simp; arith)

lemma in_blackPath: "x \<in> set blackPath \<longleftrightarrow> 1 \<le> x \<and> x \<le> 24"
  unfolding blackPath_def by (simp; arith)

lemma in_playerPathOf: "x \<in> set (playerPathOf c) \<longleftrightarrow> 1 \<le> x \<and> x \<le> 24"
  by (simp add: playerPathOf_def in_whitePath in_blackPath)

lemma home_index_le: "p \<in> set (homePointsOf c) \<Longrightarrow> indexOf (playerPathOf c) p \<le> 11"
  by (auto simp: homePointsOf_def playerPathOf_def whitePath_def blackPath_def split: if_splits)

lemma checkSingleStepLogic_point:
  assumes "isValid (checkSingleStepLogic (Pt p) idx d b c False)"
    and "d \<le> 6" and "p \<in> set (homePointsOf c) \<longrightarrow> idx \<le> 11"
  shows "\<not> isBearingOff (checkSingleStepLogic (Pt p) idx d b c False) \<and>
         (\<exists>t. targetGamePoint (checkSingleStepLogic (Pt p) idx d b c False) = Some t \<and>
              elemAt (playerPathOf c) (idx + d) = Some t \<and> 1 \<le> t \<and> t \<le> 24 \<and>
              \<not> isPointBlocked (t - 1) c b)"
proof (cases "24 \<le> idx + d")
  case True
  with assms(1) have "noCheckersEarlier c b (indexOf (homePointsOf c) p)"
    by (auto simp: checkSingleStepLogic_def Let_def split: if_splits)
  then have "p \<in> set (homePointsOf c)"
    by (simp add: noCheckersEarlier_def indexOf_in_set)
  with assms(2,3) True show ?thesis by simp
next
  case False
  with assms(1) show ?thesis
    by (auto simp: checkSingleStepLogic_def Let_def split: if_splits option.splits)
qed

lemma checkSingleStepLogic_Bar:
  assumes "isValid (checkSingleStepLogic Bar idx d b c False)"
  shows "\<not> isBearingOff (checkSingleStepLogic Bar idx d b c False) \<and>
         (\<exists>t. targetGamePoint (checkSingleStepLogic Bar idx d b c False) = Some t \<and> 1 \<le> t \<and> t \<le> 24)"
  using assms by (auto simp: checkSingleStepLogic_def Let_def split: if_splits option.splits)

lemma checkSingleStepLogic_valid_target:
  "isValid (checkSingleStepLogic src idx d b c fromBar) \<Longrightarrow>
   targetGamePoint (checkSingleStepLogic src idx d b c fromBar) \<noteq> None"
  by (auto simp: checkSingleStepLogic_def Let_def split: if_splits option.splits source.splits)



lemma findAllMoves_mem:
  assumes "m \<in> set (findAllMoves c src idx dice b pd)"
  obtains d1 ip nidx landed where
    "d1 \<in> set dice" "tryDie c src idx d1 b = Some (ip, nidx, landed)"
    "m = \<lparr>targetPoint = ip, diceUsed = sort (pd @ [d1])\<rparr> \<or>
     (nidx \<noteq> -1 \<and> remove1 d1 (sort dice) \<noteq> [] \<and>
      m \<in> set (findAllMoves c (Pt ip) nidx (remove1 d1 (sort dice)) landed (sort (pd @ [d1]))))"
proof -
  from assms have ne: "dice \<noteq> []"
    by (subst (asm) findAllMoves.simps) (simp split: if_splits)
  from assms ne obtain d1 where d1: "d1 \<in> set dice" and
    m: "m \<in> set (case tryDie c src idx d1 b of
            None \<Rightarrow> []
          | Some (ip, nidx, landed) \<Rightarrow>
              \<lparr>targetPoint = ip, diceUsed = sort (pd @ [d1])\<rparr> #
              (if nidx \<noteq> -1 \<and> remove1 d1 (sort dice) \<noteq> []
               then findAllMoves c (Pt ip) nidx (remove1 d1 (sort dice)) landed (sort (pd @ [d1]))
               else []))"
    by (subst (asm) findAllMoves.simps) auto
  from m obtain ip nidx landed where t: "tryDie c src idx d1 b = Some (ip, nidx, landed)"
    by (cases "tryDie c src idx d1 b") auto
  with m have "m = \<lparr>targetPoint = ip, diceUsed = sort (pd @ [d1])\<rparr> \<or>
     (nidx \<noteq> -1 \<and> remove1 d1 (sort dice) \<noteq> [] \<and>
      m \<in> set (findAllMoves c (Pt ip) nidx (remove1 d1 (sort dice)) landed (sort (pd @ [d1]))))"
    by (auto split: if_splits)
  with d1 t show ?thesis by (rule that)
qed

lemma tryDie_point:
  assumes "tryDie c src idx d b = Some (ip, nidx, landed)" and "d \<le> 6"
    and "\<forall>p. src = Pt p \<longrightarrow> p \<in> set (homePointsOf c) \<longrightarrow> idx \<le> 11"
  shows "1 \<le> ip \<and> ip \<le> 24 \<and> nidx = indexOf (playerPathOf c) ip"
proof -
  from assms(1) obtain tb where tb: "takeFromSource c src b = Some tb"
    by (auto simp: tryDie_def split: option.splits)
  let ?r = "checkSingleStepLogic src idx d tb c False"
  from assms(1) tb have v: "isValid ?r" and tg: "targetGamePoint ?r = Some ip"
    by (auto simp: tryDie_def Let_def split: option.splits if_splits)
  have "\<not> isBearingOff ?r \<and> 1 \<le> ip \<and> ip \<le> 24"
  proof (cases src)
    case Bar
    with v tg checkSingleStepLogic_Bar [of idx d tb c] show ?thesis by auto
  next
    case (Pt p)
    with v tg assms(2,3) checkSingleStepLogic_point [of p idx d tb c] show ?thesis by auto
  qed
  with assms(1) tb v tg show ?thesis
    by (auto simp: tryDie_def Let_def split: option.splits if_splits)
qed

lemma findAllMoves_pointMove:
  "faces dice \<Longrightarrow> faces pd \<Longrightarrow>
   (\<forall>p. src = Pt p \<longrightarrow> p \<in> set (homePointsOf c) \<longrightarrow> idx \<le> 11) \<Longrightarrow>
   m \<in> set (findAllMoves c src idx dice b pd) \<Longrightarrow> pointMove m"
proof (induction c src idx dice b pd arbitrary: m rule: findAllMoves.induct)
  case (1 c src idx dice b pd)
  from "1.prems"(4) obtain d1 ip nidx landed where
    d1: "d1 \<in> set dice" and t: "tryDie c src idx d1 b = Some (ip, nidx, landed)" and
    m: "m = \<lparr>targetPoint = ip, diceUsed = sort (pd @ [d1])\<rparr> \<or>
     (nidx \<noteq> -1 \<and> remove1 d1 (sort dice) \<noteq> [] \<and>
      m \<in> set (findAllMoves c (Pt ip) nidx (remove1 d1 (sort dice)) landed (sort (pd @ [d1]))))"
    by (rule findAllMoves_mem)
  from d1 "1.prems"(1) have fd: "1 \<le> d1" "d1 \<le> 6" by (auto simp: faces_set)
  from tryDie_point [OF t fd(2) "1.prems"(3)]
  have ip: "1 \<le> ip" "ip \<le> 24" and nidx: "nidx = indexOf (playerPathOf c) ip" by auto
  from m show ?case
  proof
    assume "m = \<lparr>targetPoint = ip, diceUsed = sort (pd @ [d1])\<rparr>"
    with ip fd "1.prems"(2) show ?thesis by (simp add: pointMove_def)
  next
    assume rec: "nidx \<noteq> -1 \<and> remove1 d1 (sort dice) \<noteq> [] \<and>
      m \<in> set (findAllMoves c (Pt ip) nidx (remove1 d1 (sort dice)) landed (sort (pd @ [d1])))"
    have ne: "dice \<noteq> []" using d1 by auto
    have d1s: "d1 \<in> set (sort dice)" using d1 by simp
    show ?thesis
    proof (rule "1.IH" [OF ne d1s t refl refl])
      show "nidx \<noteq> - 1 \<and> remove1 d1 (sort dice) \<noteq> []" using rec by simp
      show "faces (remove1 d1 (sort dice))" using "1.prems"(1) by (simp add: faces_remove1)
      show "faces (sort (pd @ [d1]))" using "1.prems"(2) fd by simp
      show "\<forall>p. Pt ip = Pt p \<longrightarrow> p \<in> set (homePointsOf c) \<longrightarrow> nidx \<le> 11"
        using nidx home_index_le by auto
      show "m \<in> set (findAllMoves c (Pt ip) nidx (remove1 d1 (sort dice)) landed (sort (pd @ [d1])))"
        using rec by simp
    qed
  qed
qed

section \<open>Preservation of the invariant\<close>

text \<open>
  Every handler keeps \<open>gameInvariant\<close>: a move to a point and its undo put back
  what they take, and the offered moves are recomputed from dice that are faces.
\<close>

lemma considerMove_set:
  "set (considerMove acc m) \<subseteq> set acc \<union> {m\<lparr>diceUsed := sort (diceUsed m)\<rparr>}"
  by (auto simp: considerMove_def Let_def split: option.splits if_splits)

lemma considerMove_nonempty: "considerMove acc m \<noteq> []"
  by (auto simp: considerMove_def Let_def find_None_iff split: option.splits if_splits)

lemma foldl_considerMove_set:
  "set (foldl considerMove acc ms) \<subseteq> set acc \<union> (\<lambda>m. m\<lparr>diceUsed := sort (diceUsed m)\<rparr>) ` set ms"
proof (induction ms arbitrary: acc)
  case Nil
  then show ?case by simp
next
  case (Cons m ms)
  from Cons.IH [of "considerMove acc m"] considerMove_set [of acc m]
  show ?case by auto
qed

lemma foldl_considerMove_nonempty: "acc \<noteq> [] \<Longrightarrow> foldl considerMove acc ms \<noteq> []"
  by (induction ms arbitrary: acc) (simp_all add: considerMove_nonempty)

lemma uniqueMoves_empty: "uniqueMoves ms = [] \<longleftrightarrow> ms = []"
  by (cases ms) (simp_all add: uniqueMoves_def foldl_considerMove_nonempty considerMove_nonempty)

lemma pointMove_sorted [simp]: "pointMove (m\<lparr>diceUsed := sort (diceUsed m)\<rparr>) = pointMove m"
  by (simp add: pointMove_def)

lemma uniqueMoves_pointMove:
  "\<forall>m\<in>set ms. pointMove m \<Longrightarrow> list_all pointMove (uniqueMoves ms)"
  using foldl_considerMove_set [of "[]" ms]
  by (auto simp: uniqueMoves_def list_all_iff)

lemma calculatePossibleMoves_pointMove:
  assumes "faces ds"
  shows "list_all pointMove (calculatePossibleMoves f src ds c b)"
proof (cases "f \<and> src = Bar")
  case True
  have "pointMove m" if "m \<in> set (calculatePossibleMoves f src ds c b)" for m
    using that True assms
    by (auto simp: calculatePossibleMoves_def checkSingleStepLogic_def Let_def pointMove_def
        faces_set split: if_splits)
  then show ?thesis by (simp add: list_all_iff)
next
  case False
  show ?thesis
  proof (cases src)
    case Bar
    with False show ?thesis by (simp add: calculatePossibleMoves_def)
  next
    case (Pt p)
    have "list_all pointMove (uniqueMoves (findAllMoves c (Pt p) (indexOf (playerPathOf c) p) ds b []))"
    proof (rule uniqueMoves_pointMove, rule ballI)
      fix m assume "m \<in> set (findAllMoves c (Pt p) (indexOf (playerPathOf c) p) ds b [])"
      then show "pointMove m"
        using assms home_index_le by (intro findAllMoves_pointMove [where pd = "[]"]) auto
    qed
    with Pt show ?thesis
      by (simp add: calculatePossibleMoves_def Let_def split: option.splits)
  qed
qed

lemma total_initializeBoard: "total White initializeBoard = 15 \<and> total Black initializeBoard = 15"
  by code_simp

lemma set_consumeDice: "set (consumeDice a ds) \<subseteq> set a"
  unfolding consumeDice_def
proof (induction ds arbitrary: a)
  case Nil
  then show ?case by simp
next
  case (Cons d ds)
  from Cons.IH [of "remove1 d a"] set_remove1_subset [of d a] show ?case by auto
qed

lemma faces_consumeDice: "faces a \<Longrightarrow> faces (consumeDice a ds)"
  using set_consumeDice [of a ds] by (auto simp: faces_set)

lemma gameInvariant_initial: "gameInvariant initialState"
  using total_initializeBoard by (simp add: gameInvariant_def initialState_def)

lemma gameInvariant_startMatch: "gameInvariant (startMatch s)"
  using total_initializeBoard by (simp add: gameInvariant_def startMatch_def)

lemma gameInvariant_endTurn: "gameInvariant s \<Longrightarrow> gameInvariant (endTurn cl s)"
  using total_initializeBoard by (simp add: gameInvariant_def endTurn_def)

lemma gameInvariant_roll:
  "gameInvariant s \<Longrightarrow> 1 \<le> d1 \<Longrightarrow> d1 \<le> 6 \<Longrightarrow> 1 \<le> d2 \<Longrightarrow> d2 \<le> 6 \<Longrightarrow>
   gameInvariant (rollDiceHandler s d1 d2)"
  by (simp add: gameInvariant_def rollDiceHandler_def Let_def)

lemma gameInvariant_effectMatchEnd: "gameInvariant s \<Longrightarrow> gameInvariant (effectMatchEnd s)"
  by (simp add: gameInvariant_def effectMatchEnd_def)

lemma gameInvariant_effectBar: "gameInvariant s \<Longrightarrow> gameInvariant (effectBar s)"
  by (simp add: gameInvariant_def effectBar_def calculatePossibleMoves_pointMove)

lemma gameInvariant_effectMoves: "gameInvariant s \<Longrightarrow> gameInvariant (effectMoves s)"
  by (simp add: gameInvariant_def effectMoves_def calculatePossibleMoves_pointMove split: option.splits)

lemma performMove_cases:
  assumes "performMove s src dst ds = Some s'" and "dst \<noteq> 0" and "dst \<noteq> 25"
  obtains (rejected) msg where
      "liftChecker (boardState s) (currentPlayer s) src = Some (Inl msg)"
      "s' = s\<lparr>gameMessage := msg\<rparr>"
    | (moved) nb x placed hit hitColor where
      "liftChecker (boardState s) (currentPlayer s) src = Some (Inr (nb, x))"
      "placeChecker nb (currentPlayer s) dst x = Some (placed, hit, hitColor)"
      "s' = s\<lparr>boardState := placed, selectedPoint := None, gameMessage := MsgMoveMade,
               moveHistory := moveHistory s @
                 [\<lparr>fromPoint = src, toPoint = dst, checkerColor = currentPlayer s,
                   hitOpponentChecker = hit, hitCheckerColor = hitColor, usedDice = ds\<rparr>],
               availableDice := consumeDice (availableDice s) ds,
               possibleMovesInfo := []\<rparr>"
  using assms
  by (auto simp: performMove_def split: option.splits sum.splits prod.splits)

lemma gameInvariant_performMove:
  assumes "gameInvariant s" and "performMove s src dst ds = Some s'"
    and "1 \<le> dst" "dst \<le> 24" "faces ds"
  shows "gameInvariant s'"
proof -
  from assms(3,4) have d: "dst \<noteq> 0" "dst \<noteq> 25" by auto
  from assms(2) d show ?thesis
  proof (cases rule: performMove_cases)
    case (rejected msg)
    with assms(1) show ?thesis by (simp add: gameInvariant_def)
  next
    case (moved nb x placed hit hitColor)
    have "total c placed = total c (boardState s)" if "c \<noteq> Opponent" for c
      using liftChecker_total [OF moved(1) that] placeChecker_total [OF moved(2) that] by simp
    with assms(1,5) moved(3) d show ?thesis
      by (simp add: gameInvariant_def faces_consumeDice pointRecord_def)
  qed
qed

lemma pushChecker_total:
  "pushChecker b i x = Some b' \<Longrightarrow> total c b' = total c b + (if x = c then 1 else 0)"
  by (auto simp: pushChecker_def total_setCheckers countOn_snoc split: option.splits)

lemma returnChecker_total:
  assumes "returnChecker b r = Some (Some b')" and "toPoint r \<noteq> 0" "toPoint r \<noteq> 25"
    and "c \<noteq> Opponent"
  shows "total c b' = total c b"
proof -
  from assms(1-3) obtain cs where cs: "elemAt (points b) (toPoint r - 1) = Some cs"
    and ne: "cs \<noteq> []" and l: "last cs = checkerColor r"
    by (auto simp: returnChecker_def split: option.splits if_splits)
  let ?popped = "setCheckers b (toPoint r - 1) (butlast cs)"
  have p: "total c ?popped = total c b - (if checkerColor r = c then 1 else 0)"
    using cs ne l by (simp add: total_setCheckers countOn_butlast)
  show ?thesis
  proof (cases "fromPoint r")
    case Bar
    with assms(1-3) cs ne l have "b' = ?popped\<lparr>bar := cntAdd (bar ?popped) (checkerColor r) 1\<rparr>"
      by (simp add: returnChecker_def Let_def)
    with p assms(4) show ?thesis by (simp add: total_bar_update counter_cntAdd)
  next
    case (Pt q)
    with assms(1-3) cs ne l have "pushChecker ?popped (q - 1) (checkerColor r) = Some b'"
      by (auto simp: returnChecker_def Let_def)
    from pushChecker_total [OF this, of c] p show ?thesis by simp
  qed
qed

lemma returnHitChecker_total:
  assumes "returnHitChecker b r = Some b'" and "toPoint r \<noteq> 0" "toPoint r \<noteq> 25"
    and "c \<noteq> Opponent"
  shows "total c b' = total c b"
proof (cases "hitCheckerColor r")
  case None
  with assms(1) show ?thesis by (simp add: returnHitChecker_def)
next
  case (Some hc)
  show ?thesis
  proof (cases "hitOpponentChecker r")
    case False
    with assms(1) Some show ?thesis by (simp add: returnHitChecker_def)
  next
    case True
    let ?lowered = "b\<lparr>bar := cntAdd (bar b) hc (-1)\<rparr>"
    from assms(1-3) Some True have "pushChecker ?lowered (toPoint r - 1) hc = Some b'"
      by (simp add: returnHitChecker_def Let_def)
    from pushChecker_total [OF this, of c] assms(4) show ?thesis
      by (simp add: total_bar_update counter_cntAdd)
  qed
qed

lemma faces_rev [simp]: "faces (rev ds) = faces ds"
  by (simp add: faces_set)

lemma list_all_butlast: "list_all P xs \<Longrightarrow> list_all P (butlast xs)"
  by (auto simp: list_all_iff dest: in_set_butlastD)

lemma undoLastMove_cases:
  assumes "undoLastMove s = Some s'"
  obtains (empty) "moveHistory s = []" "s' = s\<lparr>gameMessage := MsgNoUndo\<rparr>"
    | (failed) "moveHistory s \<noteq> []"
        "returnChecker (boardState s) (last (moveHistory s)) = Some None"
        "s' = s\<lparr>moveHistory := butlast (moveHistory s), gameMessage := MsgUndoError\<rparr>"
    | (undone) moved newBoardState where "moveHistory s \<noteq> []"
        "returnChecker (boardState s) (last (moveHistory s)) = Some (Some moved)"
        "returnHitChecker moved (last (moveHistory s)) = Some newBoardState"
        "s' = s\<lparr>moveHistory := butlast (moveHistory s),
                 boardState := newBoardState,
                 availableDice := rev (sort (availableDice s @ usedDice (last (moveHistory s)))),
                 selectedPoint := None,
                 gameMessage := MsgUndone,
                 mustReenterFromBar := positive (cnt (bar newBoardState) (currentPlayer s)),
                 possibleMovesInfo :=
                   (if positive (cnt (bar newBoardState) (currentPlayer s))
                    then calculatePossibleMoves (mustReenterFromBar s) Bar
                           (availableDice s @ usedDice (last (moveHistory s)))
                           (currentPlayer s) newBoardState
                    else [])\<rparr>"
  using assms
  by (auto simp: undoLastMove_def Let_def split: if_splits option.splits)

lemma gameInvariant_undoLastMove:
  assumes "gameInvariant s" and "undoLastMove s = Some s'"
  shows "gameInvariant s'"
  using assms(2)
proof (cases rule: undoLastMove_cases)
  case empty
  with assms(1) show ?thesis by (simp add: gameInvariant_def)
next
  case failed
  with assms(1) show ?thesis by (simp add: gameInvariant_def list_all_butlast)
next
  case (undone moved nb)
  let ?r = "last (moveHistory s)"
  from undone(1) assms(1) have r: "pointRecord ?r"
    by (auto simp: gameInvariant_def list_all_iff)
  then have t: "toPoint ?r \<noteq> 0" "toPoint ?r \<noteq> 25" and f: "faces (usedDice ?r)"
    by (simp_all add: pointRecord_def)
  have "total c nb = total c (boardState s)" if "c \<noteq> Opponent" for c
    using returnChecker_total [OF undone(2) t that] returnHitChecker_total [OF undone(3) t that]
    by simp
  with assms(1) undone(4) f show ?thesis
    by (simp add: gameInvariant_def list_all_butlast calculatePossibleMoves_pointMove)
qed

lemma find_pointMove:
  "list_all pointMove ms \<Longrightarrow> find P ms = Some m \<Longrightarrow> pointMove m"
  by (auto simp: list_all_iff find_Some_iff)

lemma find_target:
  "find (\<lambda>m. targetPoint m = p) ms = Some m \<Longrightarrow> targetPoint m = p"
  by (auto simp: find_Some_iff)

lemma handlePointClick_cases:
  assumes "handlePointClick s p = Some s'"
  shows "(\<exists>m src. find (\<lambda>m. targetPoint m = p) (possibleMovesInfo s) = Some m \<and>
            performMove s src p (diceUsed m) = Some s') \<or>
         (boardState s' = boardState s \<and> availableDice s' = availableDice s \<and>
          moveHistory s' = moveHistory s \<and>
          (possibleMovesInfo s' = [] \<or> possibleMovesInfo s' = possibleMovesInfo s \<or>
           possibleMovesInfo s' =
             calculatePossibleMoves (mustReenterFromBar s) (Pt p) (availableDice s)
               (currentPlayer s) (boardState s)))"
proof (cases "\<not> isPlaying s \<or> availableDice s = [] \<or> selectedPoint s = Some p")
  case True
  with assms show ?thesis by (auto simp: handlePointClick_def split: if_splits)
next
  case False
  show ?thesis
  proof (cases "find (\<lambda>m. targetPoint m = p) (possibleMovesInfo s)")
    case None
    with assms False show ?thesis
      by (auto simp: handlePointClick_def Let_def split: if_splits option.splits)
  next
    case (Some m)
    with assms False show ?thesis
      by (cases "selectedPoint s")
        (auto simp: handlePointClick_def Let_def split: if_splits option.splits)
  qed
qed

lemma gameInvariant_handlePointClick:
  assumes "gameInvariant s" and "handlePointClick s p = Some s'"
  shows "gameInvariant s'"
proof -
  let ?t = "find (\<lambda>m. targetPoint m = p) (possibleMovesInfo s)"
  from handlePointClick_cases [OF assms(2)] consider
      (move) m src where "?t = Some m" "performMove s src p (diceUsed m) = Some s'"
    | (stay) "boardState s' = boardState s" "availableDice s' = availableDice s"
        "moveHistory s' = moveHistory s"
        "possibleMovesInfo s' = [] \<or> possibleMovesInfo s' = possibleMovesInfo s \<or>
         possibleMovesInfo s' =
           calculatePossibleMoves (mustReenterFromBar s) (Pt p) (availableDice s)
             (currentPlayer s) (boardState s)"
    by blast
  then show ?thesis
  proof cases
    case move
    from move(1) assms(1) have "pointMove m" "targetPoint m = p"
      by (auto simp: gameInvariant_def dest: find_pointMove find_target)
    then show ?thesis
      using gameInvariant_performMove [OF assms(1) move(2)] by (simp add: pointMove_def)
  next
    case stay
    with assms(1) show ?thesis
      by (auto simp: gameInvariant_def calculatePossibleMoves_pointMove)
  qed
qed

lemma gameInvariant_step:
  assumes "gameInvariant s" and "step s e = Some s'"
  shows "gameInvariant s'"
proof (cases e)
  case Start
  with assms show ?thesis by (auto simp: gameInvariant_startMatch)
next
  case (Roll d1 d2)
  with assms show ?thesis by (auto simp: gameInvariant_roll split: if_splits)
next
  case (Click p)
  with assms show ?thesis by (auto intro: gameInvariant_handlePointClick)
next
  case Undo
  with assms show ?thesis by (auto intro: gameInvariant_undoLastMove)
next
  case TurnEnd
  with assms show ?thesis by (auto simp: gameInvariant_endTurn)
next
  case EffectBar
  with assms show ?thesis by (auto simp: gameInvariant_effectBar)
next
  case EffectMoves
  with assms show ?thesis by (auto simp: gameInvariant_effectMoves)
next
  case EffectMatchEnd
  with assms show ?thesis by (auto simp: gameInvariant_effectMatchEnd)
qed

lemma reachable_gameInvariant: "reachable s \<Longrightarrow> gameInvariant s"
proof (induction rule: reachable.induct)
  case reach_init
  show ?case by (rule gameInvariant_initial)
next
  case (reach_step s e s')
  then show ?case by (auto intro: gameInvariant_step)
next
  case (reach_move s m src s')
  from reach_move.IH have "faces (availableDice s)" by (simp add: gameInvariant_def)
  from calculatePossibleMoves_pointMove [OF this] reach_move.hyps(2)
  have "pointMove m" by (auto simp: list_all_iff)
  with reach_move.IH reach_move.hyps(3) show ?case
    by (auto simp: pointMove_def intro: gameInvariant_performMove)
next
  case (reach_endTurn s cl)
  then show ?case by (simp add: gameInvariant_endTurn)
qed

lemma run_reachable: "reachable s \<Longrightarrow> run s es = Some s' \<Longrightarrow> reachable s'"
proof (induction es arbitrary: s)
  case Nil
  then show ?case by simp
next
  case (Cons e es)
  then show ?case by (auto split: option.splits intro: reach_step)
qed

section \<open>One die on one checker: the existence check and the generator agree\<close>

text \<open>
  For a point that holds a checker of the player and a die from 1 to 6, the loop body of
  \<open>findAllMoves\<close> pushes a move exactly when \<open>checkIfAnyPossibleMoves\<close> accepts the
  die: the target differs from the source, so taking the checker from the source does not
  change the test of the target, and the test repeated after the simulated hit cannot fail.
\<close>

lemma distinct_playerPathOf: "distinct (playerPathOf c)"
  by (simp add: playerPathOf_def whitePath_def blackPath_def)

lemma indexOf_path:
  assumes "1 \<le> p" "p \<le> 24"
  shows "0 \<le> indexOf (playerPathOf c) p \<and> indexOf (playerPathOf c) p < 24 \<and>
         playerPathOf c ! nat (indexOf (playerPathOf c) p) = p"
proof -
  from assms have ne: "indexOf (playerPathOf c) p \<noteq> -1"
    by (simp add: indexOf_in_set in_playerPathOf)
  with indexOf_bounds [of "playerPathOf c" p] indexOf_nth [OF ne] show ?thesis by simp
qed

lemma not_Some_triple: "(\<forall>x y z. v \<noteq> Some (x, y, z)) \<longleftrightarrow> v = None"
  by (cases v) auto

lemma findAllMoves_empty:
  "findAllMoves c src idx dice b pd = [] \<longleftrightarrow> (\<forall>d\<in>set dice. tryDie c src idx d b = None)"
  by (subst findAllMoves.simps) (auto simp: not_Some_triple split: option.splits)

lemma simulateLanding_open:
  assumes "\<not> isPointBlocked (t - 1) c b"
  shows "simulateLanding c t b \<noteq> None"
proof (cases "length (checkersAt b (t - 1)) = 1 \<and> hd (checkersAt b (t - 1)) = getOpponentColor c")
  case True
  then obtain cs where cs: "elemAt (points b) (t - 1) = Some cs"
    by (auto simp: checkersAt_def split: option.splits)
  let ?h = "(setCheckers b (t - 1) (butlast (checkersAt b (t - 1))))
              \<lparr>bar := cntAdd (bar b) (getOpponentColor c) 1\<rparr>"
  from True cs have "elemAt (points ?h) (t - 1) = Some []"
    by (cases cs) (auto simp: checkersAt_def elemAt_setCheckers_same)
  then have "\<not> isPointBlocked (t - 1) c ?h" by (simp add: isPointBlocked_def)
  with True show ?thesis by (simp add: simulateLanding_def Let_def)
next
  case False
  with assms show ?thesis by (auto simp: simulateLanding_def Let_def)
qed

lemma isPointBlocked_setCheckers_other:
  "i \<noteq> j \<Longrightarrow> isPointBlocked j c (setCheckers b i cs) = isPointBlocked j c b"
  by (simp add: isPointBlocked_def elemAt_setCheckers_other)

lemma tryDie_iff_dieGivesMove:
  assumes p: "1 \<le> p" "p \<le> 24" and d: "1 \<le> d" "d \<le> 6"
    and h: "holdsChecker b c (Pt p)"
  shows "tryDie c (Pt p) (indexOf (playerPathOf c) p) d b \<noteq> None \<longleftrightarrow>
         dieGivesMove b c p (indexOf (playerPathOf c) p) d"
proof -
  let ?idx = "indexOf (playerPathOf c) p"
  from h obtain cs where cs: "elemAt (points b) (p - 1) = Some cs" "cs \<noteq> []" "hd cs = c"
    by (auto simp: holdsChecker_def split: option.splits)
  let ?tb = "setCheckers b (p - 1) (butlast cs)"
  have tb: "takeFromSource c (Pt p) b = Some ?tb"
    using cs by (simp add: takeFromSource_def)
  from indexOf_path [OF p, of c] have idx: "0 \<le> ?idx" "?idx < 24" "playerPathOf c ! nat ?idx = p"
    by auto
  show ?thesis
  proof (cases "24 \<le> ?idx + d")
    case True
    with d have "11 < ?idx" by simp
    with home_index_le [of p c] have "p \<notin> set (homePointsOf c)" by auto
    then have "indexOf (homePointsOf c) p = -1" by (simp add: indexOf_in_set [symmetric])
    with True tb show ?thesis
      by (simp add: tryDie_def dieGivesMove_def checkSingleStepLogic_def noCheckersEarlier_def Let_def)
  next
    case False
    with idx d have r: "0 \<le> ?idx + d" "?idx + d < 24" by auto
    define t where "t = playerPathOf c ! nat (?idx + d)"
    from r have e: "elemAt (playerPathOf c) (?idx + d) = Some t"
      by (simp add: elemAt_def t_def)
    from r have "t \<in> set (playerPathOf c)" by (simp add: t_def)
    then have t: "1 \<le> t" "t \<le> 24" by (simp_all add: in_playerPathOf)
    have "nat (?idx + d) \<noteq> nat ?idx" using idx d by simp
    have "t \<noteq> p"
    proof
      assume "t = p"
      with idx(3) have "playerPathOf c ! nat (?idx + d) = playerPathOf c ! nat ?idx"
        by (simp add: t_def)
      moreover have "nat (?idx + d) < length (playerPathOf c)" "nat ?idx < length (playerPathOf c)"
        using r idx by simp_all
      ultimately have "nat (?idx + d) = nat ?idx"
        using distinct_playerPathOf [of c] by (simp add: nth_eq_iff_index_eq)
      with \<open>nat (?idx + d) \<noteq> nat ?idx\<close> show False by simp
    qed
    then have bl: "isPointBlocked (t - 1) c ?tb = isPointBlocked (t - 1) c b"
      by (simp add: isPointBlocked_setCheckers_other)
    show ?thesis
    proof (cases "isPointBlocked (t - 1) c b")
      case True
      with False e t tb bl show ?thesis
        by (simp add: tryDie_def dieGivesMove_def checkSingleStepLogic_def Let_def)
    next
      case nb: False
      with bl have "simulateLanding c t ?tb \<noteq> None" by (simp add: simulateLanding_open)
      with False e t tb bl nb show ?thesis
        by (auto simp: tryDie_def dieGivesMove_def checkSingleStepLogic_def Let_def)
    qed
  qed
qed

lemma calculatePossibleMoves_Pt_nonempty:
  assumes p: "1 \<le> p" "p \<le> 24" and f: "faces dice" and h: "holdsChecker b c (Pt p)"
  shows "calculatePossibleMoves f0 (Pt p) dice c b \<noteq> [] \<longleftrightarrow>
         list_ex (dieGivesMove b c p (indexOf (playerPathOf c) p)) dice"
proof -
  from h obtain cs where cs: "elemAt (points b) (p - 1) = Some cs" "cs \<noteq> []" "hd cs = c"
    by (auto simp: holdsChecker_def split: option.splits)
  from indexOf_path [OF p, of c] have "indexOf (playerPathOf c) p \<noteq> -1" by auto
  with cs have "calculatePossibleMoves f0 (Pt p) dice c b =
      uniqueMoves (findAllMoves c (Pt p) (indexOf (playerPathOf c) p) dice b [])"
    by (simp add: calculatePossibleMoves_def Let_def)
  moreover have "tryDie c (Pt p) (indexOf (playerPathOf c) p) d b \<noteq> None \<longleftrightarrow>
      dieGivesMove b c p (indexOf (playerPathOf c) p) d" if "d \<in> set dice" for d
    using that f by (intro tryDie_iff_dieGivesMove [OF p _ _ h]) (auto simp: faces_set)
  ultimately show ?thesis
    by (auto simp: uniqueMoves_empty findAllMoves_empty list_ex_iff)
qed

lemma calculatePossibleMoves_Bar_nonempty:
  "calculatePossibleMoves True Bar dice c b \<noteq> [] \<longleftrightarrow> list_ex (barEntryOpen b c) dice"
  by (auto simp: calculatePossibleMoves_def checkSingleStepLogic_def barEntryOpen_def Let_def
      list_ex_iff)

lemma cntAdd_zero [simp]: "cntAdd r c 0 = r"
  by (cases c) simp_all

section \<open>Every reachable board has 24 points\<close>

lemma length_initializeBoard: "length (points initializeBoard) = 24"
  by (simp add: initializeBoard_def emptyPoints_def)

lemma liftChecker_length:
  "liftChecker b c src = Some (Inr (nb, x)) \<Longrightarrow> length (points nb) = length (points b)"
  by (auto simp: liftChecker_def split: source.splits option.splits if_splits)

lemma placeChecker_length:
  "placeChecker nb c dst x = Some (placed, hit, hc) \<Longrightarrow> length (points placed) = length (points nb)"
  by (auto simp: placeChecker_def Let_def split: option.splits if_splits)

lemma pushChecker_length:
  "pushChecker b i x = Some b' \<Longrightarrow> length (points b') = length (points b)"
  by (auto simp: pushChecker_def split: option.splits)

lemma endTurn_length:
  "length (points (boardState s)) = 24 \<Longrightarrow> length (points (boardState (endTurn cl s))) = 24"
  by (simp add: endTurn_def length_initializeBoard)

lemma performMove_length:
  assumes "performMove s src dst ds = Some s'" and "length (points (boardState s)) = 24"
  shows "length (points (boardState s')) = 24"
proof (cases "dst = 0 \<or> dst = 25")
  case False
  then have d: "dst \<noteq> 0" "dst \<noteq> 25" by auto
  from assms(1) d show ?thesis
  proof (cases rule: performMove_cases)
    case (rejected msg)
    with assms(2) show ?thesis by simp
  next
    case (moved nb x placed hit hitColor)
    with assms(2) liftChecker_length [OF moved(1)] placeChecker_length [OF moved(2)]
    show ?thesis by simp
  qed
next
  case True
  show ?thesis
  proof (cases "liftChecker (boardState s) (currentPlayer s) src")
    case None
    with assms(1) show ?thesis by (simp add: performMove_def)
  next
    case (Some r)
    show ?thesis
    proof (cases r)
      case (Inl msg)
      with Some assms show ?thesis by (auto simp: performMove_def)
    next
      case (Inr nbx)
      obtain nb x where nbx: "nbx = (nb, x)" by (cases nbx)
      with Some Inr have l: "length (points nb) = 24"
        using liftChecker_length [of "boardState s" "currentPlayer s" src nb x] assms(2) by simp
      from assms(1) Some Inr nbx True l show ?thesis
        by (auto simp: performMove_def Let_def endTurn_def length_initializeBoard
            split: if_splits)
    qed
  qed
qed

lemma undoLastMove_length:
  assumes "undoLastMove s = Some s'" and "length (points (boardState s)) = 24"
  shows "length (points (boardState s')) = 24"
  using assms(1)
proof (cases rule: undoLastMove_cases)
  case empty
  with assms(2) show ?thesis by simp
next
  case failed
  with assms(2) show ?thesis by simp
next
  case (undone moved nb)
  from undone(2) have "length (points moved) = length (points (boardState s))"
    by (auto simp: returnChecker_def Let_def split: if_splits option.splits source.splits
        dest!: pushChecker_length)
  moreover from undone(3) have "length (points nb) = length (points moved)"
    by (auto simp: returnHitChecker_def Let_def split: if_splits option.splits
        dest!: pushChecker_length)
  ultimately show ?thesis using undone(4) assms(2) by simp
qed

lemma handlePointClick_length:
  assumes "handlePointClick s p = Some s'" and "length (points (boardState s)) = 24"
  shows "length (points (boardState s')) = 24"
  using handlePointClick_cases [OF assms(1)] assms(2)
  by (auto dest: performMove_length)

lemma reachable_points: "reachable s \<Longrightarrow> length (points (boardState s)) = 24"
proof (induction rule: reachable.induct)
  case reach_init
  show ?case by (simp add: initialState_def length_initializeBoard)
next
  case (reach_step s e s')
  then show ?case
    by (cases e)
      (auto simp: startMatch_def rollDiceHandler_def Let_def effectBar_def effectMoves_def
        effectMatchEnd_def length_initializeBoard endTurn_length
        dest: handlePointClick_length undoLastMove_length split: if_splits option.splits)
next
  case (reach_move s m src s')
  then show ?case by (auto dest: performMove_length)
next
  case (reach_endTurn s cl)
  then show ?case by (simp add: endTurn_length)
qed

section \<open>A move and its undo\<close>

text \<open>
  The full effect of \<open>performMove\<close> for a move to a point, and the undo of such a
  move when the checker taken from the source is of the player's colour: the board and the
  history are restored and the dice are the same multiset. Every move the generator
  offers consumes dice from the available ones and ends on a point other than its source.
\<close>

lemma elemAt_ext:
  assumes "\<And>i. elemAt xs i = elemAt ys i"
  shows "xs = ys"
proof (rule nth_equalityI)
  show len: "length xs = length ys"
  proof (rule ccontr)
    assume "length xs \<noteq> length ys"
    then consider "length xs < length ys" | "length ys < length xs" by linarith
    then show False
    proof cases
      case 1
      with assms [of "int (length xs)"] show False by (simp add: elemAt_def)
    next
      case 2
      with assms [of "int (length ys)"] show False by (simp add: elemAt_def)
    qed
  qed
  fix i assume "i < length xs"
  with assms [of "int i"] len show "xs ! i = ys ! i" by (simp add: elemAt_def)
qed

lemma board_eqI:
  assumes "\<And>i. elemAt (points b1) i = elemAt (points b2) i" "bar b1 = bar b2" "home b1 = home b2"
  shows "b1 = (b2 :: board)"
  using elemAt_ext [of "points b1" "points b2"] assms by simp

lemma cntAdd_cancel [simp]: "cntAdd (cntAdd r c k) c (- k) = r"
  by (cases c) simp_all

lemma cntAdd_cancel' [simp]: "cntAdd (cntAdd r c (- k)) c k = r"
  by (cases c) simp_all

lemma mset_consumeDice: "mset ds \<subseteq># mset a \<Longrightarrow> mset (consumeDice a ds) + mset ds = mset a"
  unfolding consumeDice_def
proof (induction ds arbitrary: a)
  case Nil
  then show ?case by simp
next
  case (Cons d ds)
  from Cons.prems have d: "d \<in> set a" by (auto dest: mset_subset_eqD)
  from Cons.prems have "mset ds \<subseteq># mset (remove1 d a)"
    by (simp add: insert_subset_eq_iff)
  from Cons.IH [OF this] d show ?case by simp
qed


lemma performMove_result:
  assumes "performMove s src dst diceToConsume = Some s'"
    and "dst \<noteq> 0" and "dst \<noteq> 25" and "src \<noteq> Pt dst"
    and "holdsChecker (boardState s) (currentPlayer s) src"
  defines "lone \<equiv> checkersAt (boardState s) (dst - 1) = [getOpponentColor (currentPlayer s)]"
  shows "(\<forall>i. i \<noteq> dst - 1 \<and> src \<noteq> Pt (i + 1) \<longrightarrow>
            elemAt (points (boardState s')) i = elemAt (points (boardState s)) i) \<and>
         (\<forall>p. src = Pt p \<longrightarrow>
            elemAt (points (boardState s')) (p - 1) =
              Some (butlast (checkersAt (boardState s) (p - 1)))) \<and>
         elemAt (points (boardState s')) (dst - 1) =
           Some ((if lone then [] else checkersAt (boardState s) (dst - 1)) @
                 [case src of Bar \<Rightarrow> currentPlayer s
                  | Pt p \<Rightarrow> last (checkersAt (boardState s) (p - 1))]) \<and>
         length (points (boardState s')) = length (points (boardState s)) \<and>
         home (boardState s') = home (boardState s) \<and>
         bar (boardState s') =
           cntAdd (cntAdd (bar (boardState s)) (currentPlayer s) (if src = Bar then -1 else 0))
             (getOpponentColor (currentPlayer s)) (if lone then 1 else 0) \<and>
         moveHistory s' = moveHistory s @
           [\<lparr>fromPoint = src, toPoint = dst, checkerColor = currentPlayer s,
             hitOpponentChecker = lone,
             hitCheckerColor = (if lone then Some (getOpponentColor (currentPlayer s)) else None),
             usedDice = diceToConsume\<rparr>] \<and>
         availableDice s' = consumeDice (availableDice s) diceToConsume \<and>
         currentPlayer s' = currentPlayer s"
  using assms(1-3)
proof (cases rule: performMove_cases)
  case (rejected msg)
  with assms(5) show ?thesis
    by (auto simp: liftChecker_def holdsChecker_def split: source.splits option.splits if_splits)
next
  case (moved nb x placed hit hitColor)
  let ?b = "boardState s" and ?cp = "currentPlayer s"
  let ?opp = "getOpponentColor ?cp"
  have nb: "(\<forall>i. src \<noteq> Pt (i + 1) \<longrightarrow> elemAt (points nb) i = elemAt (points ?b) i) \<and>
            (\<forall>p. src = Pt p \<longrightarrow> elemAt (points nb) (p - 1) = Some (butlast (checkersAt ?b (p - 1)))) \<and>
            x = (case src of Bar \<Rightarrow> ?cp | Pt p \<Rightarrow> last (checkersAt ?b (p - 1))) \<and>
            length (points nb) = length (points ?b) \<and> home nb = home ?b \<and>
            bar nb = cntAdd (bar ?b) ?cp (if src = Bar then -1 else 0)"
  proof (cases src)
    case Bar
    with moved(1) show ?thesis by (auto simp: liftChecker_def split: if_splits)
  next
    case (Pt p)
    with moved(1) show ?thesis
      by (auto simp: liftChecker_def elemAt_setCheckers_other elemAt_setCheckers_same
          checkersAt_def split: option.splits if_splits)
  qed
  from assms(4) nb have tgt: "elemAt (points nb) (dst - 1) = elemAt (points ?b) (dst - 1)"
    by auto
  from moved(2) obtain cs where cs: "elemAt (points nb) (dst - 1) = Some cs"
    by (auto simp: placeChecker_def split: option.splits)
  with tgt have "elemAt (points ?b) (dst - 1) = Some cs" by simp
  then have cat: "checkersAt ?b (dst - 1) = cs" by (simp add: checkersAt_def)
  have eq1: "(length cs = 1 \<and> hd cs = ?opp) \<longleftrightarrow> cs = [?opp]"
    by (cases cs) auto
  have pl: "(\<forall>i. i \<noteq> dst - 1 \<longrightarrow> elemAt (points placed) i = elemAt (points nb) i) \<and>
            elemAt (points placed) (dst - 1) = Some ((if cs = [?opp] then [] else cs) @ [x]) \<and>
            length (points placed) = length (points nb) \<and> home placed = home nb \<and>
            bar placed = cntAdd (bar nb) ?opp (if cs = [?opp] then 1 else 0) \<and>
            hit = (cs = [?opp]) \<and> hitColor = (if cs = [?opp] then Some ?opp else None)"
    using moved(2) cs eq1
    by (auto simp: placeChecker_def Let_def elemAt_setCheckers_other elemAt_setCheckers_same
        checkersAt_def split: if_splits)
  from assms(4) have ne: "p - 1 \<noteq> dst - 1" if "src = Pt p" for p using that by auto
  from moved(3) have "boardState s' = placed" by simp
  with nb pl cat ne moved(3) show ?thesis by (simp add: lone_def)
qed

lemma move_then_undo:
  assumes pm: "performMove s src dst ds = Some s1"
    and d: "dst \<noteq> 0" "dst \<noteq> 25" "src \<noteq> Pt dst"
    and h: "holdsChecker (boardState s) (currentPlayer s) src"
    and own: "\<forall>p. src = Pt p \<longrightarrow> last (checkersAt (boardState s) (p - 1)) = currentPlayer s"
    and sub: "mset ds \<subseteq># mset (availableDice s)"
  shows "\<exists>s2. undoLastMove s1 = Some s2 \<and> boardState s2 = boardState s \<and>
              mset (availableDice s2) = mset (availableDice s) \<and>
              moveHistory s2 = moveHistory s"
proof -
  let ?b = "boardState s" and ?cp = "currentPlayer s" and ?b1 = "boardState s1"
  let ?opp = "getOpponentColor ?cp"
  define lone where "lone \<longleftrightarrow> checkersAt ?b (dst - 1) = [?opp]"
  define cs' where "cs' = (if lone then [] else checkersAt ?b (dst - 1))"
  define r where "r = \<lparr>fromPoint = src, toPoint = dst, checkerColor = ?cp,
             hitOpponentChecker = lone,
             hitCheckerColor = (if lone then Some ?opp else None), usedDice = ds\<rparr>"
  from own have x: "(case src of Bar \<Rightarrow> ?cp | Pt p \<Rightarrow> last (checkersAt ?b (p - 1))) = ?cp"
    by (cases src) auto
  from performMove_result [OF pm d h] x
  have other: "\<And>i. i \<noteq> dst - 1 \<Longrightarrow> src \<noteq> Pt (i + 1) \<Longrightarrow> elemAt (points ?b1) i = elemAt (points ?b) i"
    and srcp: "\<And>p. src = Pt p \<Longrightarrow> elemAt (points ?b1) (p - 1) = Some (butlast (checkersAt ?b (p - 1)))"
    and dstp: "elemAt (points ?b1) (dst - 1) = Some (cs' @ [?cp])"
    and home1: "home ?b1 = home ?b"
    and bar1: "bar ?b1 = cntAdd (cntAdd (bar ?b) ?cp (if src = Bar then -1 else 0)) ?opp (if lone then 1 else 0)"
    and hist: "moveHistory s1 = moveHistory s @ [r]"
    and dice: "availableDice s1 = consumeDice (availableDice s) ds"
    and cp1: "currentPlayer s1 = ?cp"
    by (simp_all add: lone_def cs'_def r_def)
  from dstp have dst0: "0 \<le> dst - 1" by (auto simp: elemAt_def split: if_splits)
  from dstp obtain cs where cs: "elemAt (points ?b) (dst - 1) = Some cs"
    using performMove_result [OF pm d h]
    by (cases "elemAt (points ?b) (dst - 1)") (auto simp: elemAt_def split: if_splits)
  then have cat: "checkersAt ?b (dst - 1) = cs" by (simp add: checkersAt_def)
  let ?popped = "setCheckers ?b1 (dst - 1) cs'"
  obtain moved where rc: "returnChecker ?b1 r = Some (Some moved)"
    and m_other: "\<And>i. i \<noteq> dst - 1 \<Longrightarrow> elemAt (points moved) i = elemAt (points ?b) i"
    and m_dst: "elemAt (points moved) (dst - 1) = Some cs'"
    and m_home: "home moved = home ?b"
    and m_bar: "bar moved = cntAdd (bar ?b) ?opp (if lone then 1 else 0)"
  proof (cases src)
    case Bar
    let ?m = "?popped\<lparr>bar := cntAdd (bar ?popped) ?cp 1\<rparr>"
    have "returnChecker ?b1 r = Some (Some ?m)"
      using Bar d dstp by (simp add: returnChecker_def r_def Let_def)
    moreover have "elemAt (points ?m) i = elemAt (points ?b) i" if "i \<noteq> dst - 1" for i
      using that Bar other [of i] by (simp add: elemAt_setCheckers_other)
    moreover have "elemAt (points ?m) (dst - 1) = Some cs'"
      using dstp by (simp add: elemAt_setCheckers_same)
    moreover have "bar ?m = cntAdd (bar ?b) ?opp (if lone then 1 else 0)"
    proof -
      have "cntAdd (cntAdd (cntAdd (bar ?b) ?cp (- 1)) ?opp k) ?cp 1 = cntAdd (bar ?b) ?opp k" for k
        by (cases ?cp; cases ?opp) simp_all
      with Bar bar1 show ?thesis by simp
    qed
    ultimately show ?thesis using home1 by (intro that [of ?m]) simp_all
  next
    case (Pt p)
    from h Pt obtain cs0 where cs0: "elemAt (points ?b) (p - 1) = Some cs0" "cs0 \<noteq> []"
      by (auto simp: holdsChecker_def split: option.splits)
    then have c0: "checkersAt ?b (p - 1) = cs0" by (simp add: checkersAt_def)
    from own Pt c0 cs0 have again: "butlast cs0 @ [?cp] = cs0" by (metis append_butlast_last_id)
    from d(3) Pt have pd: "p - 1 \<noteq> dst - 1" by auto
    have ep: "elemAt (points ?popped) (p - 1) = Some (butlast cs0)"
      using srcp [OF Pt] c0 pd by (simp add: elemAt_setCheckers_other)
    let ?m = "setCheckers ?popped (p - 1) cs0"
    have "pushChecker ?popped (p - 1) ?cp = Some ?m"
      using ep again by (simp add: pushChecker_def)
    then have "returnChecker ?b1 r = Some (Some ?m)"
      using Pt d dstp by (simp add: returnChecker_def r_def Let_def)
    moreover have "elemAt (points ?m) i = elemAt (points ?b) i" if "i \<noteq> dst - 1" for i
    proof (cases "i = p - 1")
      case True
      with ep cs0 show ?thesis by (simp add: elemAt_setCheckers_same)
    next
      case False
      with that Pt other [of i] show ?thesis by (simp add: elemAt_setCheckers_other)
    qed
    moreover have "elemAt (points ?m) (dst - 1) = Some cs'"
      using dstp pd by (simp add: elemAt_setCheckers_other elemAt_setCheckers_same)
    moreover have "bar ?m = cntAdd (bar ?b) ?opp (if lone then 1 else 0)"
      using Pt bar1 by simp
    ultimately show ?thesis using home1 by (intro that [of ?m]) simp_all
  qed
  have "returnHitChecker moved r = Some ?b"
  proof (cases lone)
    case False
    with m_dst cat cs have "elemAt (points moved) i = elemAt (points ?b) i" for i
      using m_other [of i] by (cases "i = dst - 1") (simp_all add: cs'_def)
    with m_home m_bar False have "moved = ?b" by (intro board_eqI) simp_all
    with False show ?thesis by (simp add: returnHitChecker_def r_def)
  next
    case True
    let ?l = "moved\<lparr>bar := cntAdd (bar moved) ?opp (-1)\<rparr>"
    let ?f = "setCheckers ?l (dst - 1) [?opp]"
    from True m_dst have "pushChecker ?l (dst - 1) ?opp = Some ?f"
      by (simp add: pushChecker_def cs'_def)
    with True d have "returnHitChecker moved r = Some ?f"
      by (simp add: returnHitChecker_def r_def Let_def)
    moreover have "?f = ?b"
    proof (rule board_eqI)
      fix i show "elemAt (points ?f) i = elemAt (points ?b) i"
      proof (cases "i = dst - 1")
        case e: True
        from True cat cs have "elemAt (points ?b) (dst - 1) = Some [?opp]" by (simp add: lone_def)
        with e m_dst show ?thesis by (simp add: elemAt_setCheckers_same)
      next
        case False
        with m_other [of i] show ?thesis by (simp add: elemAt_setCheckers_other)
      qed
    next
      show "bar ?f = bar ?b" using m_bar True by simp
    next
      show "home ?f = home ?b" using m_home by simp
    qed
    ultimately show ?thesis by simp
  qed
  with rc hist dice cp1 have
    "\<exists>s2. undoLastMove s1 = Some s2 \<and> boardState s2 = ?b \<and>
          availableDice s2 = rev (sort (consumeDice (availableDice s) ds @ ds)) \<and>
          moveHistory s2 = moveHistory s"
    by (simp add: undoLastMove_def Let_def r_def)
  then show ?thesis using mset_consumeDice [OF sub] by auto
qed


lemma indexOf_nth_distinct:
  "distinct xs \<Longrightarrow> i < length xs \<Longrightarrow> indexOf xs (xs ! i) = int i"
proof (induction xs arbitrary: i)
  case Nil
  then show ?case by simp
next
  case (Cons y ys)
  show ?case
  proof (cases i)
    case 0
    then show ?thesis by simp
  next
    case (Suc j)
    with Cons.prems have "ys ! j \<noteq> y" "j < length ys" by auto
    with Cons.IH [of j] Cons.prems Suc show ?thesis by (simp add: Let_def)
  qed
qed

lemma tryDie_index:
  assumes "tryDie c (Pt p) idx d b = Some (ip, nidx, landed)" and "1 \<le> d" "d \<le> 6"
    and "0 \<le> idx" and "p \<in> set (homePointsOf c) \<longrightarrow> idx \<le> 11"
  shows "nidx = idx + d \<and> 1 \<le> ip \<and> ip \<le> 24"
proof -
  from assms(1) obtain tb where tb: "takeFromSource c (Pt p) b = Some tb"
    by (auto simp: tryDie_def split: option.splits)
  let ?r = "checkSingleStepLogic (Pt p) idx d tb c False"
  from assms(1) tb have v: "isValid ?r" and tg: "targetGamePoint ?r = Some ip"
    by (auto simp: tryDie_def Let_def split: option.splits if_splits)
  from checkSingleStepLogic_point [OF v assms(3,5)] tg
  have nb: "\<not> isBearingOff ?r" and e: "elemAt (playerPathOf c) (idx + d) = Some ip"
    and ip: "1 \<le> ip" "ip \<le> 24" by auto
  from e have "nat (idx + d) < length (playerPathOf c)" "playerPathOf c ! nat (idx + d) = ip"
    "0 \<le> idx + d" by (auto simp: elemAt_def split: if_splits)
  with indexOf_nth_distinct [OF distinct_playerPathOf, of "nat (idx + d)" c]
  have "indexOf (playerPathOf c) ip = idx + d" by simp
  moreover from assms(1) tb v tg nb have "nidx = indexOf (playerPathOf c) ip"
    by (auto simp: tryDie_def Let_def split: option.splits if_splits)
  ultimately show ?thesis using ip by simp
qed

lemma findAllMoves_index:
  "faces dice \<Longrightarrow> 0 \<le> idx \<Longrightarrow> (p \<in> set (homePointsOf c) \<longrightarrow> idx \<le> 11) \<Longrightarrow>
   src = Pt p \<Longrightarrow> m \<in> set (findAllMoves c src idx dice b pd) \<Longrightarrow>
   idx < indexOf (playerPathOf c) (targetPoint m)"
proof (induction c src idx dice b pd arbitrary: m p rule: findAllMoves.induct)
  case (1 c src idx dice b pd)
  from "1.prems"(5) obtain d1 ip nidx landed where
    d1: "d1 \<in> set dice" and t: "tryDie c src idx d1 b = Some (ip, nidx, landed)" and
    m: "m = \<lparr>targetPoint = ip, diceUsed = sort (pd @ [d1])\<rparr> \<or>
     (nidx \<noteq> -1 \<and> remove1 d1 (sort dice) \<noteq> [] \<and>
      m \<in> set (findAllMoves c (Pt ip) nidx (remove1 d1 (sort dice)) landed (sort (pd @ [d1]))))"
    by (rule findAllMoves_mem)
  from d1 "1.prems"(1) have fd: "1 \<le> d1" "d1 \<le> 6" by (auto simp: faces_set)
  from tryDie_index [OF t [unfolded "1.prems"(4)] fd "1.prems"(2,3)]
  have nidx: "nidx = idx + d1" and ip: "1 \<le> ip" "ip \<le> 24" by auto
  from tryDie_point [OF t fd(2)] "1.prems"(3,4)
  have ni: "nidx = indexOf (playerPathOf c) ip" by auto
  from m show ?case
  proof
    assume "m = \<lparr>targetPoint = ip, diceUsed = sort (pd @ [d1])\<rparr>"
    with ni nidx fd show ?thesis by simp
  next
    assume rec: "nidx \<noteq> -1 \<and> remove1 d1 (sort dice) \<noteq> [] \<and>
      m \<in> set (findAllMoves c (Pt ip) nidx (remove1 d1 (sort dice)) landed (sort (pd @ [d1])))"
    have ne: "dice \<noteq> []" using d1 by auto
    have d1s: "d1 \<in> set (sort dice)" using d1 by simp
    have "nidx < indexOf (playerPathOf c) (targetPoint m)"
    proof (rule "1.IH" [OF ne d1s t refl refl])
      show "nidx \<noteq> - 1 \<and> remove1 d1 (sort dice) \<noteq> []" using rec by simp
      show "faces (remove1 d1 (sort dice))" using "1.prems"(1) by (simp add: faces_remove1)
      show "0 \<le> nidx" using nidx "1.prems"(2) fd by simp
      show "ip \<in> set (homePointsOf c) \<longrightarrow> nidx \<le> 11" using ni home_index_le by auto
      show "Pt ip = Pt ip" by simp
      show "m \<in> set (findAllMoves c (Pt ip) nidx (remove1 d1 (sort dice)) landed (sort (pd @ [d1])))"
        using rec by simp
    qed
    with nidx fd show ?thesis by simp
  qed
qed

lemma findAllMoves_dice:
  "m \<in> set (findAllMoves c src idx dice b pd) \<Longrightarrow> mset (diceUsed m) \<subseteq># mset pd + mset dice"
proof (induction c src idx dice b pd arbitrary: m rule: findAllMoves.induct)
  case (1 c src idx dice b pd)
  from "1.prems" obtain d1 ip nidx landed where
    d1: "d1 \<in> set dice" and t: "tryDie c src idx d1 b = Some (ip, nidx, landed)" and
    m: "m = \<lparr>targetPoint = ip, diceUsed = sort (pd @ [d1])\<rparr> \<or>
     (nidx \<noteq> -1 \<and> remove1 d1 (sort dice) \<noteq> [] \<and>
      m \<in> set (findAllMoves c (Pt ip) nidx (remove1 d1 (sort dice)) landed (sort (pd @ [d1]))))"
    by (rule findAllMoves_mem)
  from m show ?case
  proof
    assume "m = \<lparr>targetPoint = ip, diceUsed = sort (pd @ [d1])\<rparr>"
    with d1 show ?thesis by simp
  next
    assume rec: "nidx \<noteq> -1 \<and> remove1 d1 (sort dice) \<noteq> [] \<and>
      m \<in> set (findAllMoves c (Pt ip) nidx (remove1 d1 (sort dice)) landed (sort (pd @ [d1])))"
    have ne: "dice \<noteq> []" using d1 by auto
    have d1s: "d1 \<in> set (sort dice)" using d1 by simp
    from rec have "mset (diceUsed m) \<subseteq># mset (sort (pd @ [d1])) + mset (remove1 d1 (sort dice))"
      by (intro "1.IH" [OF ne d1s t refl refl]) simp_all
    then have "mset (diceUsed m) \<subseteq># add_mset d1 (mset pd) + (mset dice - {#d1#})"
      by simp
    with d1 show ?thesis by simp
  qed
qed

lemma uniqueMoves_subset:
  assumes "m \<in> set (uniqueMoves ms)"
  shows "\<exists>m0\<in>set ms. targetPoint m = targetPoint m0 \<and> mset (diceUsed m) = mset (diceUsed m0)"
proof -
  from assms foldl_considerMove_set [of "[]" ms]
  have "m \<in> (\<lambda>m. m\<lparr>diceUsed := sort (diceUsed m)\<rparr>) ` set ms"
    by (auto simp: uniqueMoves_def)
  then obtain m0 where "m0 \<in> set ms" "m = m0\<lparr>diceUsed := sort (diceUsed m0)\<rparr>" by auto
  then show ?thesis by (intro bexI [of _ m0]) simp_all
qed

lemma calculatePossibleMoves_offer:
  assumes "m \<in> set (calculatePossibleMoves f src dice c b)" and "faces dice"
  shows "holdsChecker b c src \<or> (src = Bar \<and> f)" and "src \<noteq> Pt (targetPoint m)"
    and "mset (diceUsed m) \<subseteq># mset dice"
proof -
  show "holdsChecker b c src \<or> (src = Bar \<and> f)"
  proof (cases src)
    case Bar
    with assms(1) show ?thesis
      by (cases f) (auto simp: calculatePossibleMoves_def)
  next
    case (Pt p)
    with assms(1) show ?thesis
      by (cases "elemAt (points b) (p - 1)")
        (auto simp: calculatePossibleMoves_def holdsChecker_def split: if_splits)
  qed
  show "src \<noteq> Pt (targetPoint m)"
  proof (cases src)
    case Bar
    then show ?thesis by simp
  next
    case (Pt p)
    let ?idx = "indexOf (playerPathOf c) p"
    from assms(1) Pt have ne: "?idx \<noteq> -1"
      and u: "m \<in> set (uniqueMoves (findAllMoves c (Pt p) ?idx dice b []))"
      by (auto simp: calculatePossibleMoves_def Let_def split: option.splits if_splits)
    from u obtain m0 where m0: "m0 \<in> set (findAllMoves c (Pt p) ?idx dice b [])"
      "targetPoint m = targetPoint m0" by (auto dest: uniqueMoves_subset)
    from ne indexOf_bounds [of "playerPathOf c" p] have "0 \<le> ?idx" by linarith
    from findAllMoves_index [OF assms(2) this _ refl m0(1)] home_index_le [of p c]
    have "?idx < indexOf (playerPathOf c) (targetPoint m0)" by auto
    with m0(2) Pt show ?thesis by auto
  qed
  show "mset (diceUsed m) \<subseteq># mset dice"
  proof (cases "f \<and> src = Bar")
    case True
    with assms(1) show ?thesis
      by (auto simp: calculatePossibleMoves_def Let_def split: if_splits)
  next
    case False
    with assms(1) obtain p where
      u: "m \<in> set (uniqueMoves (findAllMoves c (Pt p) (indexOf (playerPathOf c) p) dice b []))"
      by (cases src)
        (auto simp: calculatePossibleMoves_def Let_def split: option.splits if_splits)
    then obtain m0 where "m0 \<in> set (findAllMoves c (Pt p) (indexOf (playerPathOf c) p) dice b [])"
      "mset (diceUsed m) = mset (diceUsed m0)" by (auto dest: uniqueMoves_subset)
    with findAllMoves_dice [of m0 c "Pt p" _ dice b "[]"] show ?thesis by simp
  qed
qed

lemma offered_move_then_undo:
  assumes "m \<in> set (calculatePossibleMoves (mustReenterFromBar s) src (availableDice s)
                       (currentPlayer s) (boardState s))"
    and "faces (availableDice s)"
    and "performMove s src (targetPoint m) (diceUsed m) = Some s1"
    and "holdsChecker (boardState s) (currentPlayer s) src"
    and "\<forall>p. src = Pt p \<longrightarrow> last (checkersAt (boardState s) (p - 1)) = currentPlayer s"
  shows "\<exists>s2. undoLastMove s1 = Some s2 \<and> boardState s2 = boardState s \<and>
              mset (availableDice s2) = mset (availableDice s) \<and>
              moveHistory s2 = moveHistory s"
proof -
  from calculatePossibleMoves_pointMove [OF assms(2)] assms(1)
  have "pointMove m" by (auto simp: list_all_iff)
  then have d: "targetPoint m \<noteq> 0" "targetPoint m \<noteq> 25" by (auto simp: pointMove_def)
  from calculatePossibleMoves_offer(2,3) [OF assms(1,2)] d assms(3,4,5)
  show ?thesis by (intro move_then_undo) auto
qed

section \<open>The example game\<close>

lemma run_opening: "run initialState openingRun = Some mixedState"
  by code_simp

lemma run_secondTurn:
  "map_option (\<lambda>s. points (boardState s)) (run initialState secondTurnRun) = Some secondTurnPoints"
  by code_simp

lemma run_chain: "run initialState (secondTurnRun @ [Roll 2 2, Click 12]) = Some chainState"
  by code_simp

lemma run_shared: "run initialState (secondTurnRun @ [Roll 1 2, Click 11]) = Some sharedSelected"
  by code_simp

lemma run_first: "run initialState [Start, Roll 1 2, Click 12] = Some firstSelection"
  by code_simp

lemma reachable_run: "run initialState es = Some s \<Longrightarrow> reachable s"
  by (rule run_reachable [OF reach_init])

text \<open>
  In the states of the example game the effects that follow a render change nothing, so
  the runs above are runs of the game with its effects.
\<close>

lemma effects_idle:
  "effectBar mixedState = mixedState \<and> effectMoves mixedState = mixedState \<and>
   effectBar chainState = chainState \<and> effectMoves chainState = chainState \<and>
   effectBar sharedSelected = sharedSelected \<and> effectMoves sharedSelected = sharedSelected \<and>
   effectBar firstSelection = firstSelection \<and> effectMoves firstSelection = firstSelection"
  by code_simp

section \<open>The opponent colour and the blocking test\<close>

text \<open>
  Claim C4. The opponent of White is Black and the opponent of Black is White. The code
  gives Black for White, and for Black the string \<open>'opponent'\<close>, which is not White.
\<close>

theorem getOpponentColor_values:
  "getOpponentColor White = Black \<and> getOpponentColor Black = Opponent \<and>
   getOpponentColor Black \<noteq> White"
  by (simp add: getOpponentColor_def)

text \<open>
  Claim C3. \<open>isPointBlocked\<close> is true exactly when the point holds two or more checkers of
  the opposing colour. On the starting board point 1 holds five White checkers and point 13
  two Black ones: point 13 is blocked for White, but point 1 is not blocked for Black.
\<close>

theorem isPointBlocked_start:
  "checkersAt initializeBoard 0 = [White, White, White, White, White] \<and>
   \<not> isPointBlocked 0 Black initializeBoard \<and>
   checkersAt initializeBoard 12 = [Black, Black] \<and>
   isPointBlocked 12 White initializeBoard"
  by code_simp

text \<open>
  In general: for White, on a point whose checkers are all of one colour, the test is true
  exactly when the point holds two or more Black checkers; for Black it is false on every
  board whose checkers are White or Black.
\<close>

lemma isPointBlocked_White:
  assumes "elemAt (points b) i = Some cs" and "\<forall>x\<in>set cs. x = hd cs"
  shows "isPointBlocked i White b \<longleftrightarrow> 2 \<le> countOn Black cs"
proof (cases "cs = [] \<or> hd cs \<noteq> Black")
  case True
  with assms(2) have "filter (\<lambda>x. x = Black) cs = []" by (auto simp: filter_empty_conv)
  with True assms(1) show ?thesis
    by (auto simp: isPointBlocked_def getOpponentColor_def countOn_def)
next
  case False
  with assms(2) have "filter (\<lambda>x. x = Black) cs = cs" by (auto simp: filter_id_conv)
  with False assms(1) show ?thesis
    by (auto simp: isPointBlocked_def getOpponentColor_def countOn_def)
qed

lemma isPointBlocked_Black:
  assumes "\<forall>cs\<in>set (points b). Opponent \<notin> set cs"
  shows "\<not> isPointBlocked i Black b"
proof (cases "elemAt (points b) i")
  case None
  then show ?thesis by (simp add: isPointBlocked_def)
next
  case (Some cs)
  then have "cs \<in> set (points b)" by (auto simp: elemAt_def split: if_splits)
  with assms have "Opponent \<notin> set cs" by auto
  then have "cs \<noteq> [] \<longrightarrow> hd cs \<noteq> Opponent" by (cases cs) auto
  with Some show ?thesis by (auto simp: isPointBlocked_def getOpponentColor_def)
qed

section \<open>The generator on given positions\<close>

lemma calculatePossibleMoves_Pt:
  "calculatePossibleMoves f (Pt p) ds c b = calculatePossibleMoves False (Pt p) ds c b"
  by (simp add: calculatePossibleMoves_def)

text \<open>
  Claim C8, as amended. On the starting board with the dice 6, 6, 6, 6, the moves of White
  from point 1 are the single move to point 19 with one 6. The second step of 6 would end on
  point 13, which is blocked for White.
\<close>

theorem start_double_six_from_1:
  "calculatePossibleMoves f (Pt 1) [6, 6, 6, 6] White initializeBoard =
     [\<lparr>targetPoint = 19, diceUsed = [6]\<rparr>] \<and>
   isPointBlocked 12 White initializeBoard"
  unfolding calculatePossibleMoves_Pt [of f] by code_simp

text \<open>
  Claim C8, as stated, fails: no move to point 13 is among the moves of White from point 1
  on the starting board with the dice 6, 6, 6, 6.
\<close>

theorem start_double_six_no_13:
  "13 \<notin> set (map targetPoint
     (calculatePossibleMoves False (Pt 1) [6, 6, 6, 6] White initializeBoard))"
  by code_simp

text \<open>
  Claim C7. A White checker alone on point 3, all others borne off, may bear off with a 5.
  In the code White is eligible to bear off there, yet the step with the 5 is an ordinary
  move to point 22 and no bear-off is offered; with an exact 3 the checker is sent to point
  24. With a second White checker on point 4 the answer for point 3 and the 5 is the same
  move to point 22. When point 22 is blocked, White has no move at all with the 5. Lemma
  \<open>calculatePossibleMoves_pointMove\<close> above shows that for dice from 1 to 6 the generator
  offers no bear-off on any board.
\<close>

theorem no_bear_off_from_3:
  "areAllCheckersInHomeBoard White loneWhiteOn3 \<and>
   checkSingleStepLogic (Pt 3) 9 5 loneWhiteOn3 White False =
     \<lparr>targetGamePoint = Some 22, isValid = True, isBearingOff = False\<rparr> \<and>
   calculatePossibleMoves False (Pt 3) [5] White loneWhiteOn3 =
     [\<lparr>targetPoint = 22, diceUsed = [5]\<rparr>] \<and>
   calculatePossibleMoves False (Pt 3) [3] White loneWhiteOn3 =
     [\<lparr>targetPoint = 24, diceUsed = [3]\<rparr>] \<and>
   calculatePossibleMoves False (Pt 3) [5] White whiteOn3And4 =
     [\<lparr>targetPoint = 22, diceUsed = [5]\<rparr>] \<and>
   \<not> checkIfAnyPossibleMoves
       (loneWhiteOn3\<lparr>points := (points loneWhiteOn3)[21 := [Black, Black]]\<rparr>) White [5]"
  by code_simp

section \<open>The existence check and the generator\<close>

text \<open>
  Claim C5. On a board of 24 points and for dice that are faces of a die,
  \<open>checkIfAnyPossibleMoves\<close> is true exactly when the generator returns a move for some
  valid source: for the bar when the colour has checkers on the bar (the flag
  \<open>mustReenterFromBar\<close> is then set), otherwise for some point whose first checker is of
  that colour.
\<close>

theorem checkIfAnyPossibleMoves_iff:
  assumes "length (points b) = 24" and "faces dice"
  shows "checkIfAnyPossibleMoves b c dice \<longleftrightarrow>
     (let mustReenter = positive (cnt (bar b) c)
      in if mustReenter
         then calculatePossibleMoves mustReenter Bar dice c b \<noteq> []
         else \<exists>p\<in>{1..24}. holdsChecker b c (Pt p) \<and>
                calculatePossibleMoves mustReenter (Pt p) dice c b \<noteq> [])"
proof (cases "positive (cnt (bar b) c)")
  case True
  then show ?thesis
    by (simp add: checkIfAnyPossibleMoves_def calculatePossibleMoves_Bar_nonempty)
next
  case False
  have hc: "holdsChecker b c (Pt (int i + 1)) \<longleftrightarrow>
      checkersAt b (int i) \<noteq> [] \<and> hd (checkersAt b (int i)) = c" if "i < 24" for i
    using that assms(1) by (simp add: holdsChecker_def checkersAt_def elemAt_def)
  have "checkIfAnyPossibleMoves b c dice \<longleftrightarrow>
      (\<exists>i<24. holdsChecker b c (Pt (int i + 1)) \<and>
         list_ex (dieGivesMove b c (int i + 1) (indexOf (playerPathOf c) (int i + 1))) dice)"
    (is "_ \<longleftrightarrow> ?mid")
  proof -
    have "indexOf (playerPathOf c) (int i + 1) \<noteq> -1" if "i < 24" for i :: nat
      using that indexOf_path [of "int i + 1" c] by auto
    with False hc show ?thesis
      by (auto simp: checkIfAnyPossibleMoves_def list_ex_iff Let_def)
  qed
  also have "?mid \<longleftrightarrow> (\<exists>i<24. holdsChecker b c (Pt (int i + 1)) \<and>
          calculatePossibleMoves False (Pt (int i + 1)) dice c b \<noteq> [])"
  proof -
    have "calculatePossibleMoves False (Pt (int i + 1)) dice c b \<noteq> [] \<longleftrightarrow>
        list_ex (dieGivesMove b c (int i + 1) (indexOf (playerPathOf c) (int i + 1))) dice"
      if "i < 24" "holdsChecker b c (Pt (int i + 1))" for i :: nat
      using that assms(2) by (intro calculatePossibleMoves_Pt_nonempty) auto
    then show ?thesis by blast
  qed
  also have "\<dots> \<longleftrightarrow> (\<exists>p\<in>{1..24}. holdsChecker b c (Pt p) \<and>
          calculatePossibleMoves False (Pt p) dice c b \<noteq> [])"
  proof
    assume "\<exists>i<24. holdsChecker b c (Pt (int i + 1)) \<and>
          calculatePossibleMoves False (Pt (int i + 1)) dice c b \<noteq> []"
    then obtain i :: nat where "i < 24" "holdsChecker b c (Pt (int i + 1))"
      "calculatePossibleMoves False (Pt (int i + 1)) dice c b \<noteq> []" by auto
    then show "\<exists>p\<in>{1..24}. holdsChecker b c (Pt p) \<and>
          calculatePossibleMoves False (Pt p) dice c b \<noteq> []"
      by (intro bexI [of _ "int i + 1"]) auto
  next
    assume "\<exists>p\<in>{1..24}. holdsChecker b c (Pt p) \<and>
          calculatePossibleMoves False (Pt p) dice c b \<noteq> []"
    then obtain p :: int where p: "1 \<le> p" "p \<le> 24" "holdsChecker b c (Pt p)"
      "calculatePossibleMoves False (Pt p) dice c b \<noteq> []" by auto
    then have "nat (p - 1) < 24" "int (nat (p - 1)) + 1 = p" by auto
    with p show "\<exists>i<24. holdsChecker b c (Pt (int i + 1)) \<and>
          calculatePossibleMoves False (Pt (int i + 1)) dice c b \<noteq> []"
      by (intro exI [of _ "nat (p - 1)"]) simp
  qed
  finally show ?thesis using False by simp
qed

text \<open>
  Claim C5 on two positions. With two White checkers on the bar, the dice 3 and 5 and the
  points 3 and 5 held by Black, the check is false and the generator returns no entry. On
  the starting board with four sixes the generator returns a move from point 1, and the
  check is true.
\<close>

theorem checkIfAnyPossibleMoves_iff_witness:
  "length (points barBlocked) = 24 \<and> faces [3, 5] \<and>
   \<not> checkIfAnyPossibleMoves barBlocked White [3, 5] \<and>
   calculatePossibleMoves True Bar [3, 5] White barBlocked = [] \<and>
   length (points initializeBoard) = 24 \<and> faces [6, 6, 6, 6] \<and>
   calculatePossibleMoves False (Pt 1) [6, 6, 6, 6] White initializeBoard \<noteq> [] \<and>
   checkIfAnyPossibleMoves initializeBoard White [6, 6, 6, 6]"
proof -
  have l: "length (points barBlocked) = 24" "length (points initializeBoard) = 24"
    by code_simp+
  have f: "faces [3, 5]" "faces [6, 6, 6, 6]" by simp_all
  have n: "\<not> checkIfAnyPossibleMoves barBlocked White [3, 5]" by code_simp
  have p: "positive (cnt (bar barBlocked) White)" "\<not> positive (cnt (bar initializeBoard) White)"
    by code_simp+
  have h: "holdsChecker initializeBoard White (Pt 1)" by code_simp
  have m: "calculatePossibleMoves False (Pt 1) [6, 6, 6, 6] White initializeBoard \<noteq> []"
    by code_simp
  from checkIfAnyPossibleMoves_iff [OF l(1) f(1), of White] n p(1)
  have "calculatePossibleMoves True Bar [3, 5] White barBlocked = []" by simp
  moreover from checkIfAnyPossibleMoves_iff [OF l(2) f(2), of White] p(2) h m
  have "checkIfAnyPossibleMoves initializeBoard White [6, 6, 6, 6]" by auto
  ultimately show ?thesis using l f n m by simp
qed

section \<open>What performMove changes\<close>

text \<open>
  Claim C10. \<open>performMove\<close> moves the checker from the source to the final target in one
  step, whatever dice the move consumes. For a move to a point (not a bear-off) from a
  source that holds a checker of the player: every point other than the source and the
  target is unchanged; the source point loses its last checker; the target point receives
  the moved checker, on top of its former checkers or in place of a lone opposing checker;
  the home counts are unchanged; and the bars change only by the checker taken from the
  bar and by a lone opposing checker on the target. Checkers on the points passed on the
  way stay where they are.
\<close>

theorem performMove_touches_source_and_target:
  assumes "performMove s src dst diceToConsume = Some s'"
    and "dst \<noteq> 0" and "dst \<noteq> 25" and "src \<noteq> Pt dst"
    and "holdsChecker (boardState s) (currentPlayer s) src"
  shows "(\<forall>i. i \<noteq> dst - 1 \<and> src \<noteq> Pt (i + 1) \<longrightarrow>
            elemAt (points (boardState s')) i = elemAt (points (boardState s)) i) \<and>
         (\<forall>p. src = Pt p \<longrightarrow>
            elemAt (points (boardState s')) (p - 1) =
              Some (butlast (checkersAt (boardState s) (p - 1)))) \<and>
         elemAt (points (boardState s')) (dst - 1) =
           Some ((if checkersAt (boardState s) (dst - 1) = [getOpponentColor (currentPlayer s)]
                  then [] else checkersAt (boardState s) (dst - 1)) @
                 [case src of Bar \<Rightarrow> currentPlayer s
                  | Pt p \<Rightarrow> last (checkersAt (boardState s) (p - 1))]) \<and>
         length (points (boardState s')) = length (points (boardState s)) \<and>
         home (boardState s') = home (boardState s) \<and>
         bar (boardState s') =
           cntAdd (cntAdd (bar (boardState s)) (currentPlayer s) (if src = Bar then -1 else 0))
             (getOpponentColor (currentPlayer s))
             (if checkersAt (boardState s) (dst - 1) = [getOpponentColor (currentPlayer s)]
              then 1 else 0)"
  using performMove_result [OF assms] by simp

text \<open>
  Claim C10 in the example game. White has rolled a double 2 and selected point 12; the
  generator offers point 6 for three dice, along 12, 10, 8, 6, and a single Black checker
  stands on point 8. After the move the Black checker is still on point 8, and no checker
  is on the bar.
\<close>

theorem performMove_touches_source_and_target_witness:
  "\<lparr>targetPoint = 6, diceUsed = [2, 2, 2]\<rparr> \<in> set (possibleMovesInfo chainState) \<and>
   elemAt (points (boardState chainState)) 7 = Some [Black] \<and>
   holdsChecker (boardState chainState) (currentPlayer chainState) (Pt 12) \<and>
   (\<exists>s'. performMove chainState (Pt 12) 6 [2, 2, 2] = Some s' \<and>
         elemAt (points (boardState s')) 7 = Some [Black] \<and>
         elemAt (points (boardState s')) 11 = Some [] \<and>
         elemAt (points (boardState s')) 5 = Some [White] \<and>
         bar (boardState s') = \<lparr>white = 0, black = 0\<rparr>)"
proof -
  have m: "\<lparr>targetPoint = 6, diceUsed = [2, 2, 2]\<rparr> \<in> set (possibleMovesInfo chainState)"
    by code_simp
  have h: "holdsChecker (boardState chainState) (currentPlayer chainState) (Pt 12)"
    by code_simp
  have "performMove chainState (Pt 12) 6 [2, 2, 2] \<noteq> None" by code_simp
  then obtain s' where s': "performMove chainState (Pt 12) 6 [2, 2, 2] = Some s'" by auto
  have e: "elemAt (points (boardState chainState)) 7 = Some [Black]"
    "checkersAt (boardState chainState) 11 = [White]"
    "checkersAt (boardState chainState) 5 = []"
    "bar (boardState chainState) = \<lparr>white = 0, black = 0\<rparr>"
    "currentPlayer chainState = White"
    by code_simp+
  from performMove_touches_source_and_target [OF s' _ _ _ h]
  have "elemAt (points (boardState s')) 7 = elemAt (points (boardState chainState)) 7 \<and>
        elemAt (points (boardState s')) (12 - 1) = Some (butlast (checkersAt (boardState chainState) (12 - 1))) \<and>
        elemAt (points (boardState s')) (6 - 1) = Some ([] @ [White]) \<and>
        bar (boardState s') = \<lparr>white = 0, black = 0\<rparr>"
    using e by (simp add: getOpponentColor_def)
  with m h e s' show ?thesis by simp
qed

text \<open>
  In its search the generator did send that Black checker to the bar: the second step of
  the chain, from point 10 to point 8, leaves a board with one Black checker on the bar.
\<close>

lemma generator_simulates_hit:
  "map_option (\<lambda>(ip, nidx, landed). (ip, elemAt (points landed) 7, bar landed))
     (Option.bind (tryDie White (Pt 12) 0 2 (boardState chainState))
        (\<lambda>(ip, nidx, landed). tryDie White (Pt ip) nidx 2 landed)) =
   Some (8, Some [White], \<lparr>white = 0, black = 1\<rparr>)"
  by code_simp

section \<open>Rejected clicks and the empty undo\<close>

text \<open>
  Claim C9, as amended. \<open>undoLastMove\<close> with an empty history changes the message only. A
  rejected click on a board of 24 points does not fail, and it changes the message only,
  or, outside bar re-entry (with dice to play and the flag \<open>mustReenterFromBar\<close> not set),
  the message together with the selection, which it clears with the offered moves. During
  bar re-entry a rejected click changes the message only. The board, the bar, the home
  counts, the dice and the history are as they were.
\<close>

theorem rejections_keep_board:
  "(moveHistory s = [] \<longrightarrow> undoLastMove s = Some (s\<lparr>gameMessage := MsgNoUndo\<rparr>)) \<and>
   (length (points (boardState s)) = 24 \<and> rejectedClick s p \<longrightarrow>
      (\<exists>msg. handlePointClick s p = Some (s\<lparr>gameMessage := msg\<rparr>) \<or>
             isPlaying s \<and> availableDice s \<noteq> [] \<and> \<not> mustReenterFromBar s \<and>
             handlePointClick s p =
               Some (s\<lparr>gameMessage := msg, selectedPoint := None, possibleMovesInfo := []\<rparr>))) \<and>
   (rejectedClick s p \<and> mustReenterFromBar s \<longrightarrow>
      (\<exists>msg. handlePointClick s p = Some (s\<lparr>gameMessage := msg\<rparr>)))"
proof (intro conjI impI)
  assume "moveHistory s = []"
  then show "undoLastMove s = Some (s\<lparr>gameMessage := MsgNoUndo\<rparr>)"
    by (simp add: undoLastMove_def)
next
  assume "rejectedClick s p \<and> mustReenterFromBar s"
  then have r: "rejectedClick s p" and m: "mustReenterFromBar s" by auto
  show "\<exists>msg. handlePointClick s p = Some (s\<lparr>gameMessage := msg\<rparr>)"
  proof (cases "\<not> isPlaying s \<or> availableDice s = []")
    case True
    then show ?thesis by (auto simp: handlePointClick_def)
  next
    case False
    with r m show ?thesis
      by (auto simp: handlePointClick_def rejectedClick_def Let_def)
  qed
next
  assume "length (points (boardState s)) = 24 \<and> rejectedClick s p"
  then have len: "length (points (boardState s)) = 24" and r: "rejectedClick s p" by auto
  show "\<exists>msg. handlePointClick s p = Some (s\<lparr>gameMessage := msg\<rparr>) \<or>
             isPlaying s \<and> availableDice s \<noteq> [] \<and> \<not> mustReenterFromBar s \<and>
             handlePointClick s p =
               Some (s\<lparr>gameMessage := msg, selectedPoint := None, possibleMovesInfo := []\<rparr>)"
  proof (cases "\<not> isPlaying s \<or> availableDice s = []")
    case True
    then show ?thesis by (auto simp: handlePointClick_def)
  next
    case False
    with r have sel: "selectedPoint s \<noteq> Some p" by (auto simp: rejectedClick_def)
    show ?thesis
    proof (cases "mustReenterFromBar s")
      case True
      with r False sel show ?thesis
        by (auto simp: handlePointClick_def rejectedClick_def Let_def)
    next
      case nb: False
      show ?thesis
      proof (cases "p = 0 \<or> p = 25")
        case True
        with r False sel nb show ?thesis
          by (auto simp: handlePointClick_def rejectedClick_def Let_def)
      next
        case np: False
        with r have "1 \<le> p" "p \<le> 24" by (auto simp: rejectedClick_def)
        with len obtain cs where cs: "elemAt (points (boardState s)) (p - 1) = Some cs"
          by (auto simp: elemAt_def)
        with r False sel nb np show ?thesis
          by (auto simp: handlePointClick_def rejectedClick_def holdsChecker_def Let_def)
      qed
    qed
  qed
qed

text \<open>
  Claim C9 on the initial state, whose history is empty; on the first selection of the
  example game, where White, having selected point 12, clicks on point 7, which is
  Black's; and on the state of bar re-entry, where White clicks on point 1, which is no
  entry point on offer.
\<close>

theorem rejections_keep_board_witness:
  "moveHistory initialState = [] \<and>
   undoLastMove initialState = Some (initialState\<lparr>gameMessage := MsgNoUndo\<rparr>) \<and>
   length (points (boardState firstSelection)) = 24 \<and> rejectedClick firstSelection 7 \<and>
   (\<exists>msg. handlePointClick firstSelection 7 = Some (firstSelection\<lparr>gameMessage := msg\<rparr>) \<or>
          isPlaying firstSelection \<and> availableDice firstSelection \<noteq> [] \<and>
          \<not> mustReenterFromBar firstSelection \<and>
          handlePointClick firstSelection 7 =
            Some (firstSelection\<lparr>gameMessage := msg, selectedPoint := None,
                    possibleMovesInfo := []\<rparr>)) \<and>
   rejectedClick reentryState 1 \<and> mustReenterFromBar reentryState \<and>
   (\<exists>msg. handlePointClick reentryState 1 = Some (reentryState\<lparr>gameMessage := msg\<rparr>))"
proof -
  have h: "moveHistory initialState = []" by (simp add: initialState_def)
  have l: "length (points (boardState firstSelection)) = 24" by code_simp
  have r: "rejectedClick firstSelection 7" by code_simp
  have b: "rejectedClick reentryState 1" "mustReenterFromBar reentryState" by code_simp+
  from rejections_keep_board [of initialState 0] h
  have 1: "undoLastMove initialState = Some (initialState\<lparr>gameMessage := MsgNoUndo\<rparr>)"
    by blast
  from rejections_keep_board [of firstSelection 7] l r
  have 2: "\<exists>msg. handlePointClick firstSelection 7 = Some (firstSelection\<lparr>gameMessage := msg\<rparr>) \<or>
          isPlaying firstSelection \<and> availableDice firstSelection \<noteq> [] \<and>
          \<not> mustReenterFromBar firstSelection \<and>
          handlePointClick firstSelection 7 =
            Some (firstSelection\<lparr>gameMessage := msg, selectedPoint := None,
                    possibleMovesInfo := []\<rparr>)"
    by blast
  from rejections_keep_board [of reentryState 1] b
  have 3: "\<exists>msg. handlePointClick reentryState 1 = Some (reentryState\<lparr>gameMessage := msg\<rparr>)"
    by blast
  from h l r b 1 2 3 show ?thesis by blast
qed

text \<open>
  Claim C9, as stated, fails: the rejected click on point 7 changes more than the message.
  Point 12 was selected and three moves were offered; after the click nothing is selected
  and no move is offered.
\<close>

theorem rejected_click_clears_selection:
  "rejectedClick firstSelection 7 \<and>
   handlePointClick firstSelection 7 =
     Some (firstSelection\<lparr>gameMessage := MsgNotYours, selectedPoint := None,
             possibleMovesInfo := []\<rparr>) \<and>
   selectedPoint firstSelection = Some 12 \<and> possibleMovesInfo firstSelection \<noteq> []"
  by code_simp

section \<open>The example game: a shared point, and an undo that fails\<close>

text \<open>
  Claim C2. No point holds checkers of both colours; a checker that lands on a single
  opposing checker sends it to the bar. In the example game Black lands on the single
  White checker of point 11: the White checker stays, the point holds both colours and the
  bar is empty. When White lands on the single Black checker of point 8, that checker goes
  to the bar.
\<close>

theorem black_lands_on_white_blot:
  "run initialState openingRun = Some mixedState \<and>
   elemAt (points (boardState mixedState)) 10 = Some [White, Black] \<and>
   bar (boardState mixedState) = \<lparr>white = 0, black = 0\<rparr> \<and>
   map_option (\<lambda>s. (elemAt (points (boardState s)) 7, bar (boardState s)))
     (run chainState [Click 8]) = Some (Some [White], \<lparr>white = 0, black = 1\<rparr>)"
  by code_simp

text \<open>
  In general, a move of Black to a point never changes the count of White checkers on the
  bar.
\<close>

lemma black_never_hits:
  assumes "performMove s src dst ds = Some s'" and "dst \<noteq> 0" "dst \<noteq> 25" "src \<noteq> Pt dst"
    and "holdsChecker (boardState s) (currentPlayer s) src" and "currentPlayer s = Black"
  shows "white (bar (boardState s')) = white (bar (boardState s))"
  using performMove_result [OF assms(1-5)] assms(6) by (simp add: getOpponentColor_def)

text \<open>
  Claim C6. A move followed by an undo restores the points, the bars, the home counts and
  the dice. In the example game White selects point 11, which it shares with Black, and
  plays the offered move to point 10 with the 1: the checker taken from point 11 is the
  Black one on top. The undo then finds no White checker on point 10 and gives up with an
  error message: the points are not restored and the die is not refunded.
\<close>

theorem undo_fails_on_shared_point:
  "run initialState (secondTurnRun @ [Roll 1 2, Click 11]) = Some sharedSelected \<and>
   \<lparr>targetPoint = 10, diceUsed = [1]\<rparr> \<in> set (possibleMovesInfo sharedSelected) \<and>
   points (boardState sharedSelected) = secondTurnPoints \<and>
   availableDice sharedSelected = [1, 2] \<and>
   map_option (\<lambda>s. (points (boardState s), availableDice s, gameMessage s))
     (run sharedSelected [Click 10, Undo]) =
     Some (secondTurnPoints[10 := [White], 9 := [Black]], [2], MsgUndoError) \<and>
   secondTurnPoints[10 := [White], 9 := [Black]] \<noteq> secondTurnPoints"
  by code_simp

text \<open>
  Where the checker on top of the source is the player's own, the undo restores the board,
  the dice and the history, also after a hit: lemma \<open>offered_move_then_undo\<close> above
  shows it for every move the generator offers; here are the moves from point 12 to
  point 8 (a hit) and to point 6.
\<close>

lemma undo_restores_example:
  "map_option (\<lambda>s. (boardState s, availableDice s)) (run chainState [Click 8, Undo]) =
     Some (boardState chainState, availableDice chainState) \<and>
   map_option (\<lambda>s. (boardState s, availableDice s)) (run chainState [Click 6, Undo]) =
     Some (boardState chainState, availableDice chainState)"
  by code_simp

section \<open>Fifteen checkers of each colour\<close>

text \<open>
  Claim C1. In every reachable state, for White and for Black, the checkers on the 24
  points, on the bar and borne off are fifteen. The reachable states are those of the
  events of a game (start of a match, roll, click, undo, end of turn, the effects), of any
  move the generator offers, and of \<open>endTurn\<close> run with the callback of any render. The
  two buttons that overwrite a home count to simulate the end of a game are not events of
  a game.
\<close>

theorem fifteen_checkers:
  assumes "reachable s"
  shows "onBoard White (boardState s) + white (bar (boardState s)) + white (home (boardState s)) = 15 \<and>
         onBoard Black (boardState s) + black (bar (boardState s)) + black (home (boardState s)) = 15"
  using reachable_gameInvariant [OF assms]
  by (simp add: gameInvariant_def total_def counter_def)

text \<open>
  Claim C1 in the example game, in the state where White and Black share point 11.
\<close>

theorem fifteen_checkers_witness:
  "reachable mixedState \<and>
   onBoard White (boardState mixedState) + white (bar (boardState mixedState)) +
     white (home (boardState mixedState)) = 15 \<and>
   onBoard Black (boardState mixedState) + black (bar (boardState mixedState)) +
     black (home (boardState mixedState)) = 15"
proof -
  have r: "reachable mixedState" by (rule reachable_run [OF run_opening])
  from fifteen_checkers [OF r] r show ?thesis by simp
qed

end
